theory Spec2Isabelle
  imports Complex_Main
begin

section \<open>JavaScript values and object literals\<close>

subsection \<open>Numbers\<close>

text \<open>
  A JavaScript number is an IEEE 754 double: NaN, an infinity, or a finite value. A
  finite value is given by the real number it stands for; the two zeros are not told
  apart (no comparison or test of this code separates them). The result of an addition
  or a subtraction is the exact result rounded to the nearest double, with ties to the
  even significand, as the standard has it.

  \<open>expo x\<close> is the binary exponent of \<open>x\<close>, held in the range of the normal doubles, so
  that \<open>2 powi (expo x - 52)\<close> is the distance between the doubles around \<open>x\<close>;
  \<open>rne\<close> rounds to the nearest integer, ties to even; \<open>fl\<close> rounds a real to a double,
  and to an infinity from \<open>2 powi 1024\<close> on, the \<open>overflow_threshold\<close>.
\<close>

datatype jsnum = NaN | PInf | NInf | Fin real

definition expo :: "real \<Rightarrow> int" where
  "expo x = Max (insert (- 1022) {k \<in> {- 1022 .. 1023}. 2 powi k \<le> \<bar>x\<bar>})"

definition rne :: "real \<Rightarrow> int" where
  "rne q =
     (let f = \<lfloor>q\<rfloor> in
      if q - of_int f < 1 / 2 then f
      else if 1 / 2 < q - of_int f then f + 1
      else if even f then f else f + 1)"

definition overflow_threshold :: real where
  "overflow_threshold = 2 powi 1024"

definition fl :: "real \<Rightarrow> jsnum" where
  "fl x =
     (let u = 2 powi (expo x - 52);
          y = of_int (rne (x / u)) * u
      in if overflow_threshold \<le> y then PInf
         else if y \<le> - overflow_threshold then NInf
         else Fin y)"

text \<open>\<open>a + b\<close>, \<open>a - b\<close>, \<open>a < b\<close> and \<open>a <= b\<close> on numbers.\<close>

fun num_add :: "jsnum \<Rightarrow> jsnum \<Rightarrow> jsnum" where
  "num_add (Fin x) (Fin y) = fl (x + y)"
| "num_add NaN b = NaN"
| "num_add a NaN = NaN"
| "num_add PInf NInf = NaN"
| "num_add NInf PInf = NaN"
| "num_add PInf b = PInf"
| "num_add a PInf = PInf"
| "num_add NInf b = NInf"
| "num_add a NInf = NInf"

fun num_sub :: "jsnum \<Rightarrow> jsnum \<Rightarrow> jsnum" where
  "num_sub (Fin x) (Fin y) = fl (x - y)"
| "num_sub NaN b = NaN"
| "num_sub a NaN = NaN"
| "num_sub PInf PInf = NaN"
| "num_sub NInf NInf = NaN"
| "num_sub PInf b = PInf"
| "num_sub a PInf = NInf"
| "num_sub NInf b = NInf"
| "num_sub a NInf = PInf"

fun num_lt :: "jsnum \<Rightarrow> jsnum \<Rightarrow> bool" where
  "num_lt (Fin x) (Fin y) = (x < y)"
| "num_lt NaN b = False"
| "num_lt a NaN = False"
| "num_lt PInf b = False"
| "num_lt a NInf = False"
| "num_lt a PInf = True"
| "num_lt NInf b = True"

fun num_le :: "jsnum \<Rightarrow> jsnum \<Rightarrow> bool" where
  "num_le (Fin x) (Fin y) = (x \<le> y)"
| "num_le NaN b = False"
| "num_le a NaN = False"
| "num_le a PInf = True"
| "num_le NInf b = True"
| "num_le PInf b = False"
| "num_le a NInf = False"

subsection \<open>Values and objects\<close>

text \<open>
  The services exchange plain JavaScript values. An object is the list of its own
  properties in insertion order.
\<close>

datatype jsval =
    JUndefined
  | JNull
  | JBool bool
  | JNum jsnum
  | JStr string
  | JObj "(string \<times> jsval) list"

type_synonym obj = "(string \<times> jsval) list"

text \<open>\<open>o[k] = v\<close>: an existing key keeps its position, a new key is added at the end.\<close>

fun obj_set :: "obj \<Rightarrow> string \<Rightarrow> jsval \<Rightarrow> obj" where
  "obj_set [] k v = [(k, v)]"
| "obj_set ((k', v') # ps) k v = (if k' = k then (k, v) # ps else (k', v') # obj_set ps k v)"

text \<open>\<open>{...base, ...src}\<close>: the properties of \<open>src\<close> are written over \<open>base\<close>, left to right.\<close>

fun obj_spread :: "obj \<Rightarrow> obj \<Rightarrow> obj" where
  "obj_spread base [] = base"
| "obj_spread base ((k, v) # src) = obj_spread (obj_set base k v) src"

text \<open>\<open>o.k\<close> on an object: a missing property reads as \<open>undefined\<close>.\<close>

definition obj_get :: "obj \<Rightarrow> string \<Rightarrow> jsval" where
  "obj_get ob k = (case map_of ob k of None \<Rightarrow> JUndefined | Some v \<Rightarrow> v)"

text \<open>
  The message of the \<open>TypeError\<close> raised by a property read on \<open>undefined\<close> or \<open>null\<close>
  (the wording is the engine's; V8's is used here).
\<close>

definition type_error :: "jsval \<Rightarrow> string \<Rightarrow> string" where
  "type_error v k =
     ''Cannot read properties of '' @ (if v = JNull then ''null'' else ''undefined'')
       @ '' (reading '' @ [CHR 0x27] @ k @ [CHR 0x27] @ '')''"

text \<open>
  \<open>v.k\<close> on any value: \<open>undefined\<close> and \<open>null\<close> throw; the primitives have none of the
  properties read by this code (\<open>value\<close>, \<open>id\<close>, \<open>success\<close>, \<open>token\<close>, \<open>error\<close>,
  \<open>nextState\<close>), so the read gives \<open>undefined\<close>.
\<close>

fun get_prop :: "jsval \<Rightarrow> string \<Rightarrow> string + jsval" where
  "get_prop JUndefined k = Inl (type_error JUndefined k)"
| "get_prop JNull k = Inl (type_error JNull k)"
| "get_prop (JObj ob) k = Inr (obj_get ob k)"
| "get_prop _ k = Inr JUndefined"

text \<open>Truthiness: among the numbers, zero and NaN are falsy.\<close>

fun truthy :: "jsval \<Rightarrow> bool" where
  "truthy JUndefined = False"
| "truthy JNull = False"
| "truthy (JBool b) = b"
| "truthy (JNum n) = (n \<noteq> Fin 0 \<and> n \<noteq> NaN)"
| "truthy (JStr s) = (s \<noteq> [])"
| "truthy (JObj _) = True"

text \<open>\<open>a || b\<close>\<close>

definition js_or :: "jsval \<Rightarrow> jsval \<Rightarrow> jsval" where
  "js_or a b = (if truthy a then a else b)"

text \<open>
  \<open>JSON.parse(JSON.stringify(v))\<close>: a number that is not finite becomes \<open>null\<close>, and a
  property whose value is \<open>undefined\<close> is left out.
\<close>

primrec json :: "jsval \<Rightarrow> jsval" where
  "json JUndefined = JUndefined"
| "json JNull = JNull"
| "json (JBool b) = JBool b"
| "json (JNum n) = (case n of Fin x \<Rightarrow> JNum (Fin x) | _ \<Rightarrow> JNull)"
| "json (JStr s) = JStr s"
| "json (JObj ps) = JObj (filter (\<lambda>p. snd p \<noteq> JUndefined) (map (map_prod id json) ps))"

definition json_obj :: "obj \<Rightarrow> obj" where
  "json_obj ob = filter (\<lambda>p. snd p \<noteq> JUndefined) (map (map_prod id json) ob)"

text \<open>
  What the runtime supplies to one call: the identifier \<open>_generateId()\<close> builds from the
  clock and the random generator, the timestamp \<open>new Date().toISOString()\<close>, whether
  \<open>storage.setItem\<close> throws, the message of the exception that reading the stored item
  throws (from \<open>getItem\<close> or from \<open>JSON.parse\<close>), if it throws, the reading of a string
  as a number, and the printing of a number.
\<close>

record env =
  generateId :: string
  toISOString :: string
  setItem_throws :: bool
  getItem_throws :: "string option"
  StringToNumber :: "string \<Rightarrow> jsnum"
  NumberToString :: "jsnum \<Rightarrow> string"

text \<open>
  A runtime for the examples: it gives the identifier \<open>i\<close> and the timestamp \<open>t\<close>, its
  store accepts every write and read, every string reads as NaN, and numbers print
  as \<open>0\<close>. In \<open>full_env\<close> the store refuses the write (its quota is used up).
\<close>

definition test_env :: "string \<Rightarrow> string \<Rightarrow> env" where
  "test_env i t =
     \<lparr>generateId = i, toISOString = t, setItem_throws = False, getItem_throws = None,
      StringToNumber = (\<lambda>s. NaN), NumberToString = (\<lambda>r. ''0'')\<rparr>"

definition full_env :: "string \<Rightarrow> string \<Rightarrow> env" where
  "full_env i t = (test_env i t)\<lparr>setItem_throws := True\<rparr>"

text \<open>\<open>ToNumber\<close>; a plain object converts to NaN.\<close>

fun ToNumber :: "env \<Rightarrow> jsval \<Rightarrow> jsnum" where
  "ToNumber e JUndefined = NaN"
| "ToNumber e JNull = Fin 0"
| "ToNumber e (JBool b) = Fin (if b then 1 else 0)"
| "ToNumber e (JNum n) = n"
| "ToNumber e (JStr s) = StringToNumber e s"
| "ToNumber e (JObj _) = NaN"

text \<open>\<open>ToString\<close>, as a template literal applies it; a plain object prints as \<open>[object Object]\<close>.\<close>

fun ToString :: "env \<Rightarrow> jsval \<Rightarrow> string" where
  "ToString e JUndefined = ''undefined''"
| "ToString e JNull = ''null''"
| "ToString e (JBool b) = (if b then ''true'' else ''false'')"
| "ToString e (JNum n) = NumberToString e n"
| "ToString e (JStr s) = s"
| "ToString e (JObj _) = ''[object Object]''"

text \<open>\<open>x < v\<close> for a number \<open>x\<close> and any value \<open>v\<close>.\<close>

definition js_lt :: "env \<Rightarrow> jsnum \<Rightarrow> jsval \<Rightarrow> bool" where
  "js_lt e x v = num_lt x (ToNumber e v)"

definition failure :: "string \<Rightarrow> obj" where
  "failure msg = [(''success'', JBool False), (''error'', JStr msg)]"

section \<open>WalletUnified\<close>

text \<open>
  The wallet object. \<open>storage\<close> is \<open>None\<close> when no store is configured; otherwise it is
  the item \<open>pewpi_wallet\<close> of the store, \<open>None\<close> when there is none, and else what
  \<open>JSON.parse\<close> gives for it: the balance (\<open>None\<close> for \<open>null\<close>) and the transactions.
  The item is written by \<open>_persist\<close> only. \<open>tokenService\<close> is the injected service,
  reduced to its \<open>createToken\<close> method, which runs on the service's own state \<open>'ts\<close>
  and either throws (\<open>Inl\<close> the message) or returns a value. \<open>notified\<close> stands for
  the set \<open>listeners\<close>: it is the list of the calls \<open>_notifyListeners\<close> has made, the
  subscribers being observers that do not call back into the wallet.
\<close>

record 'ts WalletUnified =
  storage :: "(jsnum option \<times> obj list) option option"
  tokenService :: "(jsval \<Rightarrow> 'ts \<Rightarrow> (string + jsval) \<times> 'ts) option"
  balance :: jsnum
  transactions :: "obj list"
  notified :: "(string \<times> obj) list"

definition initialize_wallet ::
  "env \<Rightarrow> 'ts WalletUnified \<Rightarrow> obj \<times> 'ts WalletUnified" where
  "initialize_wallet e w =
     (case storage w of
        None \<Rightarrow> ([(''success'', JBool True), (''balance'', JNum (balance w))], w)
      | Some item \<Rightarrow>
          (case getItem_throws e of
             Some msg \<Rightarrow> (failure msg, w)
           | None \<Rightarrow>
               (case item of
                  None \<Rightarrow> ([(''success'', JBool True), (''balance'', JNum (balance w))], w)
                | Some (stored_balance, stored_transactions) \<Rightarrow>
                    let w1 = w\<lparr>balance :=
                                 (case stored_balance of
                                    None \<Rightarrow> Fin 0
                                  | Some n \<Rightarrow> if truthy (JNum n) then n else Fin 0),
                               transactions := stored_transactions\<rparr>
                    in ([(''success'', JBool True), (''balance'', JNum (balance w1))], w1))))"

definition persist :: "env \<Rightarrow> 'ts WalletUnified \<Rightarrow> 'ts WalletUnified" where
  "persist e w =
     (case storage w of
        None \<Rightarrow> w
      | Some item \<Rightarrow>
          if setItem_throws e then w
          else w\<lparr>storage := Some (Some
                  ((case balance w of Fin x \<Rightarrow> Some (Fin x) | _ \<Rightarrow> None),
                   map json_obj (transactions w)))\<rparr>)"

definition notifyListeners :: "string \<Rightarrow> obj \<Rightarrow> 'ts WalletUnified \<Rightarrow> 'ts WalletUnified" where
  "notifyListeners event data w = w\<lparr>notified := notified w @ [(event, data)]\<rparr>"

text \<open>
  The methods of the wallet are \<open>async\<close>. \<open>addFunds\<close> and \<open>deductFunds\<close> make all their
  changes to the balance, the list and the store before their one \<open>await\<close> (the call of
  \<open>_persist\<close>, which has no \<open>await\<close> of its own and so has written the store when it
  returns its promise); after it they only notify and return. These two steps are
  taken together here, so the balance in the notification and in the result is the
  one the call itself has made. \<open>purchaseToken\<close> goes on changing the wallet after its
  \<open>await\<close>s; it is modelled below with what other code does to the wallet in between.
\<close>

definition addFunds ::
  "env \<Rightarrow> jsval \<Rightarrow> obj \<Rightarrow> 'ts WalletUnified \<Rightarrow> obj \<times> 'ts WalletUnified" where
  "addFunds e amount metadata w =
     (case amount of
        JNum a \<Rightarrow>
          if num_le a (Fin 0) then (failure ''Invalid amount'', w)
          else
            let transaction = obj_spread
                  [(''id'', JStr (generateId e)), (''type'', JStr ''credit''),
                   (''amount'', JNum a), (''timestamp'', JStr (toISOString e))] metadata;
                w1 = w\<lparr>balance := num_add (balance w) a,
                       transactions := transactions w @ [transaction]\<rparr>;
                w2 = persist e w1;
                w3 = notifyListeners ''funds_added''
                       [(''transaction'', JObj transaction), (''balance'', JNum (balance w2))] w2
            in ([(''success'', JBool True), (''balance'', JNum (balance w3)),
                 (''transaction'', JObj transaction)], w3)
      | _ \<Rightarrow> (failure ''Invalid amount'', w))"

definition deductFunds ::
  "env \<Rightarrow> jsval \<Rightarrow> obj \<Rightarrow> 'ts WalletUnified \<Rightarrow> obj \<times> 'ts WalletUnified" where
  "deductFunds e amount metadata w =
     (case amount of
        JNum a \<Rightarrow>
          if num_le a (Fin 0) then (failure ''Invalid amount'', w)
          else if num_lt (balance w) a then (failure ''Insufficient funds'', w)
          else
            let transaction = obj_spread
                  [(''id'', JStr (generateId e)), (''type'', JStr ''debit''),
                   (''amount'', JNum a), (''timestamp'', JStr (toISOString e))] metadata;
                w1 = w\<lparr>balance := num_sub (balance w) a,
                       transactions := transactions w @ [transaction]\<rparr>;
                w2 = persist e w1;
                w3 = notifyListeners ''funds_deducted''
                       [(''transaction'', JObj transaction), (''balance'', JNum (balance w2))] w2
            in ([(''success'', JBool True), (''balance'', JNum (balance w3)),
                 (''transaction'', JObj transaction)], w3)
      | _ \<Rightarrow> (failure ''Invalid amount'', w))"

text \<open>
  \<open>purchaseToken\<close> makes up to two transactions, so it takes the runtime's supplies for
  the deduction (\<open>e1\<close>) and for the rollback (\<open>e2\<close>). An exception inside the
  \<open>try\<close> block leaves the changes made so far and returns its message as a failure.
  Between the deduction and what follows it the method stops at
  \<open>await this.deductFunds(...)\<close> and at \<open>await this.tokenService.createToken(...)\<close>,
  and other code may call the wallet: \<open>meanwhile\<close> is what these calls make of the
  wallet (the identity when there are none).
\<close>

definition purchaseToken ::
  "env \<Rightarrow> env \<Rightarrow> jsval \<Rightarrow> ('ts WalletUnified \<Rightarrow> 'ts WalletUnified) \<Rightarrow>
   'ts WalletUnified \<Rightarrow> 'ts \<Rightarrow> jsval \<times> 'ts WalletUnified \<times> 'ts" where
  "purchaseToken e1 e2 tokenData meanwhile w ts =
     (case tokenService w of
        None \<Rightarrow> (JObj (failure ''Token service not configured''), w, ts)
      | Some createToken \<Rightarrow>
          (case get_prop tokenData ''value'' of
             Inl msg \<Rightarrow> (JObj (failure msg), w, ts)
           | Inr v \<Rightarrow>
               let amount = js_or v (JNum (Fin 0)) in
               if js_lt e1 (balance w) amount
               then (JObj (failure ''Insufficient funds''), w, ts)
               else
                 (case get_prop tokenData ''id'' of
                    Inl msg \<Rightarrow> (JObj (failure msg), w, ts)
                  | Inr tokenId \<Rightarrow>
                      let (deductResult, w1) =
                            deductFunds e1 amount
                              [(''purpose'', JStr ''token_purchase''), (''tokenId'', tokenId)] w
                      in if \<not> truthy (obj_get deductResult ''success'')
                         then (JObj deductResult, w1, ts)
                         else
                           (case createToken tokenData ts of
                              (Inl msg, ts1) \<Rightarrow> (JObj (failure msg), meanwhile w1, ts1)
                            | (Inr tokenResult, ts1) \<Rightarrow>
                                let w2 = meanwhile w1 in
                                (case get_prop tokenResult ''success'' of
                                   Inl msg \<Rightarrow> (JObj (failure msg), w2, ts1)
                                 | Inr ok \<Rightarrow>
                                     if \<not> truthy ok
                                     then
                                       let (rollbackResult, w3) =
                                             addFunds e2 amount
                                               [(''purpose'', JStr ''token_purchase_rollback'')] w2
                                       in (tokenResult, w3, ts1)
                                     else
                                       (JObj [(''success'', JBool True),
                                              (''token'', (case get_prop tokenResult ''token'' of
                                                             Inl _ \<Rightarrow> JUndefined | Inr t \<Rightarrow> t)),
                                              (''balance'', JNum (balance w2))], w2, ts1))))))"

text \<open>
  The parts of \<open>purchaseToken\<close> between its \<open>await\<close>s, as steps of their own: the guards
  and the deduction; the call of \<open>createToken\<close>; and what follows the result of
  \<open>createToken\<close> (\<open>Inl\<close> when it threw), given the amount deducted: the rollback when the
  result is not a success. A purchase that other calls overlap is these three steps
  with the other calls between them.
\<close>

definition purchase_begin :: "env \<Rightarrow> jsval \<Rightarrow> 'ts WalletUnified \<Rightarrow> 'ts WalletUnified" where
  "purchase_begin e1 tokenData w =
     (case tokenService w of
        None \<Rightarrow> w
      | Some createToken \<Rightarrow>
          (case get_prop tokenData ''value'' of
             Inl msg \<Rightarrow> w
           | Inr v \<Rightarrow>
               let amount = js_or v (JNum (Fin 0)) in
               if js_lt e1 (balance w) amount then w
               else
                 (case get_prop tokenData ''id'' of
                    Inl msg \<Rightarrow> w
                  | Inr tokenId \<Rightarrow>
                      snd (deductFunds e1 amount
                             [(''purpose'', JStr ''token_purchase''), (''tokenId'', tokenId)] w))))"

definition purchase_create :: "jsval \<Rightarrow> 'ts WalletUnified \<Rightarrow> 'ts \<Rightarrow> 'ts" where
  "purchase_create tokenData w ts =
     (case tokenService w of
        None \<Rightarrow> ts
      | Some createToken \<Rightarrow> snd (createToken tokenData ts))"

definition purchase_end ::
  "env \<Rightarrow> jsval \<Rightarrow> string + jsval \<Rightarrow> 'ts WalletUnified \<Rightarrow> 'ts WalletUnified" where
  "purchase_end e2 amount created_token w =
     (case created_token of
        Inl msg \<Rightarrow> w
      | Inr tokenResult \<Rightarrow>
          (case get_prop tokenResult ''success'' of
             Inl msg \<Rightarrow> w
           | Inr ok \<Rightarrow>
               if \<not> truthy ok
               then snd (addFunds e2 amount [(''purpose'', JStr ''token_purchase_rollback'')] w)
               else w))"

text \<open>
  A call of the wallet's interface that writes the wallet, and a run of such calls in
  order. \<open>PurchaseToken\<close> is a purchase during which no other call reaches the wallet;
  \<open>PurchaseBegin\<close>, \<open>PurchaseCreate\<close> and \<open>PurchaseEnd\<close> are the parts of a purchase
  that other calls overlap. As \<open>addFunds\<close> and \<open>deductFunds\<close> change the wallet before
  their \<open>await\<close> only, a run of these calls gives the states of the wallet also when
  calls overlap. The ledger calls are those that move funds: all but \<open>initialize\<close>.
\<close>

datatype wallet_op =
    InitializeWallet env
  | AddFunds env jsval obj
  | DeductFunds env jsval obj
  | PurchaseToken env env jsval
  | PurchaseBegin env jsval
  | PurchaseCreate jsval
  | PurchaseEnd env jsval "string + jsval"

fun wallet_step :: "wallet_op \<Rightarrow> 'ts WalletUnified \<times> 'ts \<Rightarrow> 'ts WalletUnified \<times> 'ts" where
  "wallet_step (InitializeWallet e) (w, ts) = (snd (initialize_wallet e w), ts)"
| "wallet_step (AddFunds e amount metadata) (w, ts) = (snd (addFunds e amount metadata w), ts)"
| "wallet_step (DeductFunds e amount metadata) (w, ts) = (snd (deductFunds e amount metadata w), ts)"
| "wallet_step (PurchaseToken e1 e2 tokenData) (w, ts) =
     snd (purchaseToken e1 e2 tokenData (\<lambda>w. w) w ts)"
| "wallet_step (PurchaseBegin e1 tokenData) (w, ts) = (purchase_begin e1 tokenData w, ts)"
| "wallet_step (PurchaseCreate tokenData) (w, ts) = (w, purchase_create tokenData w ts)"
| "wallet_step (PurchaseEnd e2 amount created_token) (w, ts) =
     (purchase_end e2 amount created_token w, ts)"

fun wallet_run :: "wallet_op list \<Rightarrow> 'ts WalletUnified \<times> 'ts \<Rightarrow> 'ts WalletUnified \<times> 'ts" where
  "wallet_run [] st = st"
| "wallet_run (c # cs) st = wallet_run cs (wallet_step c st)"

fun ledger_call :: "wallet_op \<Rightarrow> bool" where
  "ledger_call (InitializeWallet e) = False"
| "ledger_call _ = True"

text \<open>
  The amounts the guards of the ledger calls let through although no sum of money is
  meant: \<open>addFunds(NaN)\<close> and \<open>deductFunds(NaN)\<close> (\<open>NaN <= 0\<close> and \<open>balance < NaN\<close> are
  both false), and the deduction of \<open>Infinity\<close>, by \<open>deductFunds\<close> or as the \<open>value\<close> of a
  token. \<open>sound_amount\<close> holds of a call that passes none of these.
\<close>

fun sound_amount :: "wallet_op \<Rightarrow> bool" where
  "sound_amount (AddFunds e amount metadata) = (amount \<noteq> JNum NaN)"
| "sound_amount (DeductFunds e amount metadata) = (amount \<noteq> JNum NaN \<and> amount \<noteq> JNum PInf)"
| "sound_amount (PurchaseToken e1 e2 tokenData) = (get_prop tokenData ''value'' \<noteq> Inr (JNum PInf))"
| "sound_amount (PurchaseBegin e1 tokenData) = (get_prop tokenData ''value'' \<noteq> Inr (JNum PInf))"
| "sound_amount (PurchaseEnd e2 amount created_token) = (amount \<noteq> JNum NaN)"
| "sound_amount _ = True"

text \<open>
  Reading the ledger back from the transaction list: the amount a transaction records,
  and the totals of the entries marked \<open>credit\<close> and \<open>debit\<close>, as sums of real numbers.
\<close>

definition tx_num :: "obj \<Rightarrow> jsnum" where
  "tx_num t = (case obj_get t ''amount'' of JNum a \<Rightarrow> a | _ \<Rightarrow> NaN)"

definition tx_amount :: "obj \<Rightarrow> real" where
  "tx_amount t = (case tx_num t of Fin a \<Rightarrow> a | _ \<Rightarrow> 0)"

definition credits :: "obj list \<Rightarrow> real" where
  "credits txs = sum_list (map tx_amount (filter (\<lambda>t. obj_get t ''type'' = JStr ''credit'') txs))"

definition debits :: "obj list \<Rightarrow> real" where
  "debits txs = sum_list (map tx_amount (filter (\<lambda>t. obj_get t ''type'' = JStr ''debit'') txs))"

text \<open>
  The same totals as a program would compute them, adding the amounts in list order
  with the addition of the numbers.
\<close>

definition credits_fl :: "obj list \<Rightarrow> jsnum" where
  "credits_fl txs =
     foldl num_add (Fin 0) (map tx_num (filter (\<lambda>t. obj_get t ''type'' = JStr ''credit'') txs))"

definition debits_fl :: "obj list \<Rightarrow> jsnum" where
  "debits_fl txs =
     foldl num_add (Fin 0) (map tx_num (filter (\<lambda>t. obj_get t ''type'' = JStr ''debit'') txs))"

text \<open>
  The balance a list of transactions leads to from the balance \<open>b\<close>: each credit is
  added and each debit subtracted in list order, every result rounded as the
  arithmetic of the numbers rounds it. \<open>exact_replay\<close> holds when all the amounts are
  finite and none of these additions and subtractions rounds.
\<close>

fun replay :: "jsnum \<Rightarrow> obj list \<Rightarrow> jsnum" where
  "replay b [] = b"
| "replay b (t # txs) =
     replay (if obj_get t ''type'' = JStr ''credit'' then num_add b (tx_num t)
             else if obj_get t ''type'' = JStr ''debit'' then num_sub b (tx_num t)
             else b) txs"

fun exact_replay :: "real \<Rightarrow> obj list \<Rightarrow> bool" where
  "exact_replay b [] = True"
| "exact_replay b (t # txs) =
     (if obj_get t ''type'' = JStr ''credit''
      then tx_num t = Fin (tx_amount t) \<and> fl (b + tx_amount t) = Fin (b + tx_amount t) \<and>
           exact_replay (b + tx_amount t) txs
      else if obj_get t ''type'' = JStr ''debit''
      then tx_num t = Fin (tx_amount t) \<and> fl (b - tx_amount t) = Fin (b - tx_amount t) \<and>
           exact_replay (b - tx_amount t) txs
      else exact_replay b txs)"

text \<open>
  The caller's metadata of a direct \<open>addFunds\<close> or \<open>deductFunds\<close> call names neither
  \<open>type\<close> nor \<open>amount\<close> (\<open>purchaseToken\<close> passes fixed metadata of its own).
\<close>

fun plain_metadata :: "wallet_op \<Rightarrow> bool" where
  "plain_metadata (AddFunds e amount metadata) =
     (''type'' \<notin> fst ` set metadata \<and> ''amount'' \<notin> fst ` set metadata)"
| "plain_metadata (DeductFunds e amount metadata) =
     (''type'' \<notin> fst ` set metadata \<and> ''amount'' \<notin> fst ` set metadata)"
| "plain_metadata _ = True"

text \<open>
  The transactions created by the successful calls of a run, in call order: the
  \<open>transaction\<close> a successful \<open>addFunds\<close> or \<open>deductFunds\<close> returns, and for
  \<open>purchaseToken\<close> and its parts the entries of the calls they make themselves.
  \<open>initialize\<close> creates none.
\<close>

definition returned_transaction :: "obj \<Rightarrow> obj list" where
  "returned_transaction r =
     (if truthy (obj_get r ''success'')
      then (case obj_get r ''transaction'' of JObj t \<Rightarrow> [t] | _ \<Rightarrow> [])
      else [])"

fun created_by :: "wallet_op \<Rightarrow> 'ts WalletUnified \<times> 'ts \<Rightarrow> obj list" where
  "created_by (InitializeWallet e) (w, ts) = []"
| "created_by (AddFunds e amount metadata) (w, ts) =
     returned_transaction (fst (addFunds e amount metadata w))"
| "created_by (DeductFunds e amount metadata) (w, ts) =
     returned_transaction (fst (deductFunds e amount metadata w))"
| "created_by c (w, ts) =
     drop (length (transactions w)) (transactions (fst (wallet_step c (w, ts))))"

fun created :: "wallet_op list \<Rightarrow> 'ts WalletUnified \<times> 'ts \<Rightarrow> obj list" where
  "created [] st = []"
| "created (c # cs) st = created_by c st @ created cs (wallet_step c st)"

definition d0_1 :: real where "d0_1 = 3602879701896397 / 2 ^ 55"
definition d0_2 :: real where "d0_2 = 3602879701896397 / 2 ^ 54"
definition d1_1 :: real where "d1_1 = 2476979795053773 / 2 ^ 51"

text \<open>
  The wallets of the examples: a wallet with no store and no token service that holds
  the balance \<open>b\<close>; the same wallet with a store that has no item yet; and the same
  wallet with a token service whose \<open>createToken\<close> returns a failure.
\<close>

definition wallet_of :: "jsnum \<Rightarrow> unit WalletUnified" where
  "wallet_of b =
     \<lparr>storage = None, tokenService = None, balance = b, transactions = [], notified = []\<rparr>"

definition stored_wallet :: "jsnum \<Rightarrow> unit WalletUnified" where
  "stored_wallet b = (wallet_of b)\<lparr>storage := Some None\<rparr>"

definition rejecting_wallet :: "jsnum \<Rightarrow> unit WalletUnified" where
  "rejecting_wallet b =
     (wallet_of b)\<lparr>tokenService := Some (\<lambda>tokenData ts. (Inr (JObj (failure ''rejected'')), ts))\<rparr>"

definition d1_2 :: real where "d1_2 = 5404319552844595 / 2 ^ 52"
definition d1_2_up :: real where "d1_2_up = 1351079888211149 / 2 ^ 50"
definition d1_3 :: real where "d1_3 = 5854679515581645 / 2 ^ 52"

section \<open>IntegrationListener\<close>

record event =
  ev_id :: string
  ev_service :: string
  ev_type :: string
  ev_data :: jsval
  ev_timestamp :: string

text \<open>
  A callback is a function object, known by its identity. A \<open>Set\<close> of callbacks is the
  list of its entries in insertion order; \<open>delete\<close> empties the entry's slot and leaves
  the later entries where they are, which is what an iteration in progress observes.
\<close>

type_synonym callback = nat

type_synonym callback_set = "callback option list"

definition set_add :: "callback \<Rightarrow> callback_set \<Rightarrow> callback_set" where
  "set_add c cs = (if Some c \<in> set cs then cs else cs @ [Some c])"

definition set_delete :: "callback \<Rightarrow> callback_set \<Rightarrow> callback_set" where
  "set_delete c cs = map (\<lambda>x. if x = Some c then None else x) cs"

text \<open>
  What the listener has done, in order: an event pushed on the queue, an event handed to
  \<open>_dispatchEvent\<close>, a callback called for an event under a pattern. The field
  \<open>trace\<close> of the listener below keeps this record; the source has no such field, and
  no function of the listener reads it.
\<close>

datatype entry =
    Enqueued event
  | Dispatched event
  | Called string callback event

record IntegrationListener =
  eventQueue :: "event list"
  listeners :: "string \<Rightarrow> callback_set option"
  isProcessing :: bool
  trace :: "entry list"

text \<open>
  The listener is asynchronous: \<open>_dispatchEvent\<close> stops at \<open>await callback(event)\<close>
  until the promise of the callback settles, and \<open>_processQueue\<close> stops at
  \<open>await this._dispatchEvent(event)\<close>. While it is stopped, the callback runs, and so
  may any other code of the application: the services call \<open>_handleEvent\<close> without
  awaiting it, so the code that made a service raise an event goes on while the event
  is being dispatched. A \<open>pause\<close> names the \<open>await\<close> the listener is stopped at.

  What is done to the listener during a pause, by the callback or by anyone else, is a
  list of actions in the order they happen: register or unregister a callback (the
  function \<open>on\<close> returns), make a service or \<open>emit\<close> raise an event (the arguments of
  \<open>_handleEvent\<close>, then the identifier and timestamp the event gets). \<open>Throw\<close> marks
  that the callback throws or that its promise is rejected, which the \<open>catch\<close> block
  logs before the dispatch goes on; \<open>Hang\<close> says that the promise never settles, so
  that the dispatch never goes on. The actions of a pause depend on what has happened
  so far and on the pause.
\<close>

datatype pause =
    AwaitCallback string callback event
  | AwaitDispatch event

datatype action =
    On string callback
  | Off string callback
  | Raise string string jsval string string
  | Throw
  | Hang

type_synonym behaviour = "entry list \<Rightarrow> pause \<Rightarrow> action list"

definition IntegrationListener_new :: IntegrationListener where
  "IntegrationListener_new =
     \<lparr>eventQueue = [], listeners = Map.empty, isProcessing = False, trace = []\<rparr>"

definition on :: "string \<Rightarrow> callback \<Rightarrow> IntegrationListener \<Rightarrow> IntegrationListener" where
  "on eventPattern callback s =
     s\<lparr>listeners := (listeners s)(eventPattern \<mapsto>
          set_add callback (case listeners s eventPattern of None \<Rightarrow> [] | Some cs \<Rightarrow> cs))\<rparr>"

text \<open>The function \<open>on\<close> returns: it removes the callback from the pattern's set.\<close>

definition off :: "string \<Rightarrow> callback \<Rightarrow> IntegrationListener \<Rightarrow> IntegrationListener" where
  "off eventPattern callback s =
     (case listeners s eventPattern of
        None \<Rightarrow> s
      | Some callbacks \<Rightarrow> s\<lparr>listeners := (listeners s)(eventPattern \<mapsto> set_delete callback callbacks)\<rparr>)"

definition patterns :: "event \<Rightarrow> string list" where
  "patterns event =
     [ev_service event @ '':'' @ ev_type event, ev_service event @ '':*'', ''*'']"

text \<open>
  The dispatch machinery. The actions of the pauses may raise events without end, or a
  callback may never settle, so a run is bounded by the depth \<open>n\<close> of the calls and loop
  rounds it may make, and is \<open>None\<close> when the bound is reached or the dispatch hangs. The
  functions of the listener call one another; \<open>call\<close> names a call with its arguments,
  and \<open>exec\<close> holds the body of each:

  \<^item> \<open>HandleEvent\<close> is \<open>_handleEvent(service, eventType, data)\<close>, with the identifier
    and timestamp the new event gets;
  \<^item> \<open>ProcessQueue\<close> is \<open>_processQueue()\<close> and \<open>QueueLoop\<close> its \<open>while\<close> loop, with
    the pause at \<open>await this._dispatchEvent(event)\<close>;
  \<^item> \<open>DispatchEvent\<close> is \<open>_dispatchEvent(event)\<close>, \<open>ForPatterns\<close> its loop over the
    patterns left, with the test \<open>if (callbacks)\<close>, and \<open>ForCallbacks\<close> the loop
    \<open>for (const callback of callbacks)\<close> at position \<open>i\<close> of the live set, with the
    pause at \<open>await callback(event)\<close> inside its \<open>try\<close>;
  \<^item> \<open>Await\<close> is a pause, with the actions that are left of it. An event raised during a
    pause goes through \<open>_handleEvent\<close> like any other.
\<close>

datatype call =
    HandleEvent string string jsval string string
  | ProcessQueue
  | QueueLoop
  | DispatchEvent event
  | ForPatterns "string list" event
  | ForCallbacks string nat event
  | Await "action list"

primrec exec :: "nat \<Rightarrow> behaviour \<Rightarrow> call \<Rightarrow> IntegrationListener \<Rightarrow> IntegrationListener option" where
  "exec 0 beh c s = None"
| "exec (Suc n) beh c s =
     (case c of
        HandleEvent service eventType data i t \<Rightarrow>
          (let event = \<lparr>ev_id = i, ev_service = service, ev_type = eventType, ev_data = data,
                        ev_timestamp = t\<rparr>
           in exec n beh ProcessQueue
                (s\<lparr>eventQueue := eventQueue s @ [event], trace := trace s @ [Enqueued event]\<rparr>))
      | ProcessQueue \<Rightarrow>
          (if isProcessing s \<or> eventQueue s = [] then Some s
           else (case exec n beh QueueLoop (s\<lparr>isProcessing := True\<rparr>) of
                   None \<Rightarrow> None
                 | Some s' \<Rightarrow> Some (s'\<lparr>isProcessing := False\<rparr>)))
      | QueueLoop \<Rightarrow>
          (case eventQueue s of
             [] \<Rightarrow> Some s
           | event # rest \<Rightarrow>
               (case exec n beh (DispatchEvent event) (s\<lparr>eventQueue := rest\<rparr>) of
                  None \<Rightarrow> None
                | Some s1 \<Rightarrow>
                    (case exec n beh (Await (beh (trace s1) (AwaitDispatch event))) s1 of
                       None \<Rightarrow> None
                     | Some s2 \<Rightarrow> exec n beh QueueLoop s2)))
      | DispatchEvent event \<Rightarrow>
          exec n beh (ForPatterns (patterns event) event)
            (s\<lparr>trace := trace s @ [Dispatched event]\<rparr>)
      | ForPatterns ps event \<Rightarrow>
          (case ps of
             [] \<Rightarrow> Some s
           | pattern # rest \<Rightarrow>
               (case listeners s pattern of
                  None \<Rightarrow> exec n beh (ForPatterns rest event) s
                | Some callbacks \<Rightarrow>
                    (case exec n beh (ForCallbacks pattern 0 event) s of
                       None \<Rightarrow> None
                     | Some s' \<Rightarrow> exec n beh (ForPatterns rest event) s')))
      | ForCallbacks pattern i event \<Rightarrow>
          (case listeners s pattern of
             None \<Rightarrow> Some s
           | Some callbacks \<Rightarrow>
               if i < length callbacks then
                 (case callbacks ! i of
                    None \<Rightarrow> exec n beh (ForCallbacks pattern (Suc i) event) s
                  | Some callback \<Rightarrow>
                      (case exec n beh (Await (beh (trace s) (AwaitCallback pattern callback event)))
                              (s\<lparr>trace := trace s @ [Called pattern callback event]\<rparr>) of
                         None \<Rightarrow> None
                       | Some s' \<Rightarrow> exec n beh (ForCallbacks pattern (Suc i) event) s'))
               else Some s)
      | Await acts \<Rightarrow>
          (case acts of
             [] \<Rightarrow> Some s
           | On eventPattern callback # rest \<Rightarrow>
               exec n beh (Await rest) (on eventPattern callback s)
           | Off eventPattern callback # rest \<Rightarrow>
               exec n beh (Await rest) (off eventPattern callback s)
           | Raise service eventType data i t # rest \<Rightarrow>
               (case exec n beh (HandleEvent service eventType data i t) s of
                  None \<Rightarrow> None
                | Some s' \<Rightarrow> exec n beh (Await rest) s')
           | Throw # rest \<Rightarrow> exec n beh (Await rest) s
           | Hang # rest \<Rightarrow> None))"

definition handleEvent ::
  "nat \<Rightarrow> behaviour \<Rightarrow> string \<Rightarrow> string \<Rightarrow> jsval \<Rightarrow> string \<Rightarrow> string \<Rightarrow>
   IntegrationListener \<Rightarrow> IntegrationListener option" where
  "handleEvent n beh service eventType data i t s =
     exec n beh (HandleEvent service eventType data i t) s"

definition processQueue ::
  "nat \<Rightarrow> behaviour \<Rightarrow> IntegrationListener \<Rightarrow> IntegrationListener option" where
  "processQueue n beh s = exec n beh ProcessQueue s"

definition dispatchEvent ::
  "nat \<Rightarrow> behaviour \<Rightarrow> event \<Rightarrow> IntegrationListener \<Rightarrow> IntegrationListener option" where
  "dispatchEvent n beh event s = exec n beh (DispatchEvent event) s"

text \<open>\<open>emit(eventType, data)\<close>: the event is raised for the service \<open>integration\<close>.\<close>

definition emit ::
  "nat \<Rightarrow> behaviour \<Rightarrow> string \<Rightarrow> jsval \<Rightarrow> string \<Rightarrow> string \<Rightarrow> IntegrationListener \<Rightarrow>
   (obj \<times> IntegrationListener) option" where
  "emit n beh eventType data i t s =
     (case handleEvent n beh ''integration'' eventType data i t s of
        None \<Rightarrow> None
      | Some s' \<Rightarrow> Some ([(''success'', JBool True)], s'))"

text \<open>Reading the record of a run: the events pushed, the events dispatched, the calls made.\<close>

fun enqueued :: "entry list \<Rightarrow> event list" where
  "enqueued [] = []"
| "enqueued (Enqueued e # tr) = e # enqueued tr"
| "enqueued (_ # tr) = enqueued tr"

fun dispatched :: "entry list \<Rightarrow> event list" where
  "dispatched [] = []"
| "dispatched (Dispatched e # tr) = e # dispatched tr"
| "dispatched (_ # tr) = dispatched tr"

fun calls :: "entry list \<Rightarrow> (string \<times> callback \<times> event) list" where
  "calls [] = []"
| "calls (Called p c e # tr) = (p, c, e) # calls tr"
| "calls (_ # tr) = calls tr"

text \<open>
  The callbacks registered under a pattern, in the order of their registration: the
  entries of the pattern's set that are not empty.
\<close>

fun live :: "callback_set \<Rightarrow> callback list" where
  "live [] = []"
| "live (None # cs) = live cs"
| "live (Some c # cs) = c # live cs"

definition registered :: "IntegrationListener \<Rightarrow> string \<Rightarrow> callback list" where
  "registered s pattern = (case listeners s pattern of None \<Rightarrow> [] | Some cs \<Rightarrow> live cs)"

text \<open>
  What reaches a listener from outside while it is idle: a registration, the call of a
  function \<open>on\<close> returned, and an event raised by a service or by \<open>emit\<close>, which starts
  a batch. (What reaches it while a batch is in progress is part of the pauses of the
  batch.)
\<close>

datatype listener_op =
    Subscribe string callback
  | Unsubscribe string callback
  | Notify string string jsval string string

fun listener_run ::
  "nat \<Rightarrow> behaviour \<Rightarrow> listener_op list \<Rightarrow> IntegrationListener \<Rightarrow> IntegrationListener option" where
  "listener_run n beh [] s = Some s"
| "listener_run n beh (Subscribe eventPattern callback # ops) s =
     listener_run n beh ops (on eventPattern callback s)"
| "listener_run n beh (Unsubscribe eventPattern callback # ops) s =
     listener_run n beh ops (off eventPattern callback s)"
| "listener_run n beh (Notify service eventType data i t # ops) s =
     (case handleEvent n beh service eventType data i t s of
        None \<Rightarrow> None
      | Some s' \<Rightarrow> listener_run n beh ops s')"

text \<open>
  The queue discipline as an invariant: the events pushed so far are the events
  dispatched so far, in the same order, followed by the events still in the queue.
\<close>

definition fifo :: "IntegrationListener \<Rightarrow> bool" where
  "fifo s \<longleftrightarrow> enqueued (trace s) = dispatched (trace s) @ eventQueue s"

fun changes_listeners :: "action \<Rightarrow> bool" where
  "changes_listeners (On p c) = True"
| "changes_listeners (Off p c) = True"
| "changes_listeners _ = False"

text \<open>
  A quiet action leaves the sets of callbacks alone and lets the dispatch go on.
\<close>

definition quiet :: "action \<Rightarrow> bool" where
  "quiet a \<longleftrightarrow> \<not> changes_listeners a \<and> a \<noteq> Hang"

text \<open>
  A calm action registers no callback and lets the dispatch go on: it may unregister
  callbacks, raise events and throw.
\<close>

fun registers :: "action \<Rightarrow> bool" where
  "registers (On p c) = True"
| "registers _ = False"


text \<open>The number of events a list of actions raises.\<close>

fun raises :: "action list \<Rightarrow> nat" where
  "raises [] = 0"
| "raises (Raise service eventType data i t # acts) = Suc (raises acts)"
| "raises (_ # acts) = raises acts"

text \<open>
  Events and behaviours for the examples. In \<open>relay\<close>, a callback answers a sign-in by
  emitting a \<open>state_change\<close> event, as the adapter's own callback does through
  \<open>_transitionTo\<close>. In \<open>fanout\<close>, the first sign-in is answered by two events, which are
  then in the queue together. In \<open>unsubscriber\<close>, callback 2 is unregistered from the
  sign-in pattern while the dispatch awaits callback 1 (by callback 1 or by the code
  that signed in, which goes on after \<open>signIn\<close> has notified the listener). In
  \<open>silent\<close> nothing is done during any pause.
\<close>

definition signin_event :: event where
  "signin_event = \<lparr>ev_id = ''evt_1'', ev_service = ''auth'', ev_type = ''auth_signin'',
                    ev_data = JNull, ev_timestamp = ''t1''\<rparr>"



definition star_event :: event where
  "star_event = \<lparr>ev_id = ''evt_1'', ev_service = ''auth'', ev_type = ''*'',
                  ev_data = JNull, ev_timestamp = ''t1''\<rparr>"

definition silent :: behaviour where
  "silent tr pz = []"

definition relay :: behaviour where
  "relay tr pz =
     (case pz of
        AwaitCallback p c ev \<Rightarrow>
          if ev_type ev = ''auth_signin''
          then [Raise ''integration'' ''state_change'' JNull ''evt_2'' ''t2'']
          else []
      | AwaitDispatch ev \<Rightarrow> [])"


definition unsubscriber :: behaviour where
  "unsubscriber tr pz =
     (case pz of
        AwaitCallback p c ev \<Rightarrow> if c = 1 then [Off ''auth:auth_signin'' 2] else []
      | AwaitDispatch ev \<Rightarrow> [])"

text \<open>In \<open>stalled\<close>, the promise of callback 1 never settles.\<close>

definition stalled :: behaviour where
  "stalled tr pz =
     (case pz of
        AwaitCallback p c ev \<Rightarrow> if c = 1 then [Hang] else []
      | AwaitDispatch ev \<Rightarrow> [])"


text \<open>
  Listeners for the examples: three callbacks registered, two for the sign-in and one for
  every event, with a batch in progress; and a listener in the middle of the dispatch
  of a sign-in, stopped at the \<open>await\<close> of its one callback.
\<close>

definition signin_listener :: IntegrationListener where
  "signin_listener =
     (on ''*'' 3 (on ''auth:auth_signin'' 2 (on ''auth:auth_signin'' 1 IntegrationListener_new)))
       \<lparr>isProcessing := True\<rparr>"


section \<open>MachineAdapter\<close>

text \<open>
  The services are injected objects. A method of a service runs on the state \<open>'w\<close> of
  everything outside the adapter, and either throws (\<open>Inl\<close> the message) or returns a
  value.
\<close>

record 'w AuthService =
  svc_signIn :: "jsval \<Rightarrow> 'w \<Rightarrow> (string + jsval) \<times> 'w"
  svc_signOut :: "'w \<Rightarrow> (string + jsval) \<times> 'w"

record 'w TokenService =
  svc_createToken :: "jsval \<Rightarrow> 'w \<Rightarrow> (string + jsval) \<times> 'w"

record 'w WalletService =
  svc_addFunds :: "jsval \<Rightarrow> jsval \<Rightarrow> 'w \<Rightarrow> (string + jsval) \<times> 'w"
  svc_purchaseToken :: "jsval \<Rightarrow> 'w \<Rightarrow> (string + jsval) \<times> 'w"

record 'w IntegrationService =
  svc_on :: "string \<Rightarrow> 'w \<Rightarrow> (string + jsval) \<times> 'w"
  svc_emit :: "string \<Rightarrow> jsval \<Rightarrow> 'w \<Rightarrow> (string + jsval) \<times> 'w"

record 'w services =
  auth :: "'w AuthService option"
  token :: "'w TokenService option"
  wallet :: "'w WalletService option"
  integration :: "'w IntegrationService option"

text \<open>
  The handlers of the transition table: the five \<open>_defineTransitions\<close> registers, and a
  handler of the caller's own, which returns an object or throws.
\<close>

datatype 'w handler =
    Signin
  | Signout
  | Create_token
  | Add_funds
  | Purchase_token
  | Custom "jsval \<Rightarrow> 'w \<Rightarrow> (string + obj) \<times> 'w"

record 'w MachineAdapter =
  services :: "'w services"
  currentState :: jsval
  stateHistory :: "obj list"
  transitions :: "string \<Rightarrow> 'w handler option"
  maxHistorySize :: nat

definition MachineAdapter_new :: "'w services \<Rightarrow> 'w MachineAdapter" where
  "MachineAdapter_new sv =
     \<lparr>services = sv, currentState = JStr ''idle'', stateHistory = [],
      transitions = Map.empty, maxHistorySize = 100\<rparr>"

definition defineTransitions :: "'w MachineAdapter \<Rightarrow> 'w MachineAdapter" where
  "defineTransitions s =
     s\<lparr>transitions := (transitions s)
         (''initialized:signin'' \<mapsto> Signin,
          ''authenticated:signout'' \<mapsto> Signout,
          ''authenticated:create_token'' \<mapsto> Create_token,
          ''authenticated:add_funds'' \<mapsto> Add_funds,
          ''authenticated:purchase_token'' \<mapsto> Purchase_token)\<rparr>"

text \<open>The body of a handler, run with the services of the adapter on the context.\<close>

fun handler_body ::
  "'w handler \<Rightarrow> 'w services \<Rightarrow> jsval \<Rightarrow> 'w \<Rightarrow> (string + obj) \<times> 'w" where
  "handler_body Signin sv ctx world =
     (case auth sv of
        None \<Rightarrow> (Inr [(''error'', JStr ''Auth service not available'')], world)
      | Some a \<Rightarrow>
          (case svc_signIn a ctx world of
             (Inl msg, world') \<Rightarrow> (Inl msg, world')
           | (Inr result, world') \<Rightarrow>
               (case get_prop result ''success'' of
                  Inl msg \<Rightarrow> (Inl msg, world')
                | Inr ok \<Rightarrow>
                    if truthy ok then (Inr [(''nextState'', JStr ''authenticated'')], world')
                    else (case get_prop result ''error'' of
                            Inl msg \<Rightarrow> (Inl msg, world')
                          | Inr er \<Rightarrow> (Inr [(''error'', er)], world')))))"
| "handler_body Signout sv ctx world =
     (case auth sv of
        None \<Rightarrow> (Inr [(''error'', JStr ''Auth service not available'')], world)
      | Some a \<Rightarrow>
          (case svc_signOut a world of
             (Inl msg, world') \<Rightarrow> (Inl msg, world')
           | (Inr result, world') \<Rightarrow>
               (case get_prop result ''success'' of
                  Inl msg \<Rightarrow> (Inl msg, world')
                | Inr ok \<Rightarrow>
                    if truthy ok then (Inr [(''nextState'', JStr ''initialized'')], world')
                    else (case get_prop result ''error'' of
                            Inl msg \<Rightarrow> (Inl msg, world')
                          | Inr er \<Rightarrow> (Inr [(''error'', er)], world')))))"
| "handler_body Create_token sv ctx world =
     (case token sv of
        None \<Rightarrow> (Inr [(''error'', JStr ''Token service not available'')], world)
      | Some t \<Rightarrow>
          (case svc_createToken t ctx world of
             (Inl msg, world') \<Rightarrow> (Inl msg, world')
           | (Inr result, world') \<Rightarrow> (Inr [(''data'', result)], world')))"
| "handler_body Add_funds sv ctx world =
     (case wallet sv of
        None \<Rightarrow> (Inr [(''error'', JStr ''Wallet service not available'')], world)
      | Some w \<Rightarrow>
          (case get_prop ctx ''amount'' of
             Inl msg \<Rightarrow> (Inl msg, world)
           | Inr amount \<Rightarrow>
               (case get_prop ctx ''metadata'' of
                  Inl msg \<Rightarrow> (Inl msg, world)
                | Inr metadata \<Rightarrow>
                    (case svc_addFunds w amount metadata world of
                       (Inl msg, world') \<Rightarrow> (Inl msg, world')
                     | (Inr result, world') \<Rightarrow> (Inr [(''data'', result)], world')))))"
| "handler_body Purchase_token sv ctx world =
     (case wallet sv of
        None \<Rightarrow> (Inr [(''error'', JStr ''Wallet service not available'')], world)
      | Some w \<Rightarrow>
          (case get_prop ctx ''tokenData'' of
             Inl msg \<Rightarrow> (Inl msg, world)
           | Inr tokenData \<Rightarrow>
               (case svc_purchaseToken w tokenData world of
                  (Inl msg, world') \<Rightarrow> (Inl msg, world')
                | (Inr result, world') \<Rightarrow> (Inr [(''data'', result)], world'))))"
| "handler_body (Custom f) sv ctx world = f ctx world"

text \<open>
  \<open>_transitionTo(newState, metadata)\<close>; the first component of the result is the message
  of the exception \<open>integration.emit\<close> threw, if it threw.
\<close>

definition transitionTo ::
  "env \<Rightarrow> jsval \<Rightarrow> obj \<Rightarrow> 'w MachineAdapter \<Rightarrow> 'w \<Rightarrow> string option \<times> 'w MachineAdapter \<times> 'w" where
  "transitionTo e newState metadata s world =
     (let previousState = currentState s;
          historyEntry = obj_spread
            [(''from'', previousState), (''to'', newState),
             (''timestamp'', JStr (toISOString e))] metadata;
          pushed = stateHistory s @ [historyEntry];
          s' = s\<lparr>currentState := newState,
                 stateHistory := (if length pushed > maxHistorySize s then tl pushed else pushed)\<rparr>
      in case integration (services s') of
           None \<Rightarrow> (None, s', world)
         | Some ig \<Rightarrow>
             (case svc_emit ig ''state_change'' (JObj historyEntry) world of
                (Inl msg, world') \<Rightarrow> (Some msg, s', world')
              | (Inr r, world') \<Rightarrow> (None, s', world')))"

text \<open>\<open>transition(action, context)\<close>; the context defaults to \<open>{}\<close> when it is not given.\<close>

definition transition ::
  "env \<Rightarrow> jsval \<Rightarrow> jsval \<Rightarrow> 'w MachineAdapter \<Rightarrow> 'w \<Rightarrow> obj \<times> 'w MachineAdapter \<times> 'w" where
  "transition e action context0 s world =
     (let context = (if context0 = JUndefined then JObj [] else context0);
          transitionKey = ToString e (currentState s) @ '':'' @ ToString e action
      in case transitions s transitionKey of
           None \<Rightarrow>
             (failure (''No transition from '' @ ToString e (currentState s) @ '' on ''
                         @ ToString e action), s, world)
         | Some handler \<Rightarrow>
             (case handler_body handler (services s) context world of
                (Inl msg, world1) \<Rightarrow> (failure msg, s, world1)
              | (Inr result, world1) \<Rightarrow>
                  if truthy (obj_get result ''nextState'')
                  then
                    (case transitionTo e (obj_get result ''nextState'')
                            [(''action'', action), (''context'', context)] s world1 of
                       (Some msg, s1, world2) \<Rightarrow> (failure msg, s1, world2)
                     | (None, s1, world2) \<Rightarrow>
                         (obj_spread [(''success'', JBool True), (''state'', currentState s1)] result,
                          s1, world2))
                  else
                    (obj_spread [(''success'', JBool True), (''state'', currentState s)] result,
                     s, world1)))"

definition subscribeToServices :: "'w MachineAdapter \<Rightarrow> 'w \<Rightarrow> string option \<times> 'w" where
  "subscribeToServices s world =
     (case integration (services s) of
        None \<Rightarrow> (None, world)
      | Some ig \<Rightarrow>
          (case svc_on ig ''*'' world of
             (Inl msg, world') \<Rightarrow> (Some msg, world')
           | (Inr r, world') \<Rightarrow> (None, world')))"

definition initialize ::
  "env \<Rightarrow> 'w MachineAdapter \<Rightarrow> 'w \<Rightarrow> obj \<times> 'w MachineAdapter \<times> 'w" where
  "initialize e s world =
     (let s1 = defineTransitions s in
      case subscribeToServices s1 world of
        (Some msg, world1) \<Rightarrow> (failure msg, s1, world1)
      | (None, world1) \<Rightarrow>
          (case transitionTo e (JStr ''initialized'') [] s1 world1 of
             (Some msg, s2, world2) \<Rightarrow> (failure msg, s2, world2)
           | (None, s2, world2) \<Rightarrow>
               ([(''success'', JBool True), (''state'', currentState s2)], s2, world2)))"

text \<open>
  The callback \<open>_subscribeToServices\<close> registers under \<open>*\<close>, run on an integration event.
\<close>

definition integrationCallback ::
  "env \<Rightarrow> jsval \<Rightarrow> 'w MachineAdapter \<Rightarrow> 'w \<Rightarrow> string option \<times> 'w MachineAdapter \<times> 'w" where
  "integrationCallback e event s world =
     (case get_prop event ''type'' of
        Inl msg \<Rightarrow> (Some msg, s, world)
      | Inr ty \<Rightarrow>
          if ty = JStr ''auth_signin''
          then transitionTo e (JStr ''authenticated'') [(''trigger'', JStr ''integration_event'')] s world
          else if ty = JStr ''auth_signout''
          then transitionTo e (JStr ''initialized'') [(''trigger'', JStr ''integration_event'')] s world
          else (None, s, world))"

text \<open>
  What happens to an adapter after its construction: a call of \<open>initialize\<close> or
  \<open>transition\<close>, an integration event reaching its callback, a transition added to the
  table by the application.
\<close>

datatype 'w adapter_op =
    Initialize env
  | Transition env jsval jsval
  | IntegrationEvent env jsval
  | SetTransition string "'w handler"

fun adapter_step :: "'w adapter_op \<Rightarrow> 'w MachineAdapter \<times> 'w \<Rightarrow> 'w MachineAdapter \<times> 'w" where
  "adapter_step (Initialize e) (s, world) = snd (initialize e s world)"
| "adapter_step (Transition e action context) (s, world) = snd (transition e action context s world)"
| "adapter_step (IntegrationEvent e event) (s, world) = snd (integrationCallback e event s world)"
| "adapter_step (SetTransition key handler) (s, world) =
     (s\<lparr>transitions := (transitions s)(key \<mapsto> handler)\<rparr>, world)"

fun adapter_run :: "'w adapter_op list \<Rightarrow> 'w MachineAdapter \<times> 'w \<Rightarrow> 'w MachineAdapter \<times> 'w" where
  "adapter_run [] st = st"
| "adapter_run (c # cs) st = adapter_run cs (adapter_step c st)"

text \<open>The bound on the history, as an invariant of the adapter.\<close>

definition history_ok :: "'w MachineAdapter \<Rightarrow> bool" where
  "history_ok s \<longleftrightarrow> maxHistorySize s = 100 \<and> length (stateHistory s) \<le> 100"

text \<open>
  Services for the examples: an auth service that rejects every sign-in with a failure
  result, alone or with no other service.
\<close>

definition failing_auth :: "unit AuthService" where
  "failing_auth =
     \<lparr>svc_signIn = (\<lambda>credentials world.
         (Inr (JObj (failure ''Invalid credentials'')), world)),
      svc_signOut = (\<lambda>world. (Inr (JObj [(''success'', JBool True)]), world))\<rparr>"

definition no_services :: "unit services" where
  "no_services = \<lparr>auth = None, token = None, wallet = None, integration = None\<rparr>"

section \<open>Properties of the wallet\<close>

subsection \<open>Rounding\<close>

lemma overflow_threshold_pos: "0 < overflow_threshold"
  by (simp add: overflow_threshold_def)

lemma rne_nonneg: "0 \<le> q \<Longrightarrow> 0 \<le> rne q"
  by (simp add: rne_def Let_def)

lemma rne_of_int [simp]: "rne (of_int m) = m"
  by (simp add: rne_def Let_def)

lemma rne_zero [simp]: "rne 0 = 0"
  using rne_of_int [of 0] by simp

lemma fl_nonneg: "0 \<le> x \<Longrightarrow> num_le (Fin 0) (fl x)"
proof -
  assume "0 \<le> x"
  then have "0 \<le> real_of_int (rne (x / 2 powi (expo x - 52))) * 2 powi (expo x - 52)"
    by (intro mult_nonneg_nonneg) (simp_all add: rne_nonneg)
  then show ?thesis using overflow_threshold_pos by (simp add: fl_def Let_def)
qed

lemma fl_zero [simp]: "fl 0 = Fin 0"
  using overflow_threshold_pos by (simp add: fl_def Let_def)

lemma expo_eq:
  assumes "2 powi k \<le> \<bar>x\<bar>" "\<bar>x\<bar> < 2 powi (k + 1)" "- 1022 \<le> k" "k \<le> 1023"
  shows "expo x = k"
proof -
  have fin: "finite (insert (- 1022) {j \<in> {- 1022 .. 1023}. (2::real) powi j \<le> \<bar>x\<bar>})"
    by (rule finite.insertI, rule finite_subset [of _ "{- 1022 .. 1023}"]) auto
  have mem: "k \<in> insert (- 1022) {j \<in> {- 1022 .. 1023}. (2::real) powi j \<le> \<bar>x\<bar>}"
    using assms by simp
  have ub: "j \<le> k" if "j \<in> insert (- 1022) {j \<in> {- 1022 .. 1023}. (2::real) powi j \<le> \<bar>x\<bar>}" for j
  proof (rule ccontr)
    assume "\<not> j \<le> k"
    then have jk: "k + 1 \<le> j" by simp
    with that assms(3) have "(2::real) powi j \<le> \<bar>x\<bar>" by auto
    moreover have "(2::real) powi (k + 1) \<le> 2 powi j"
      using jk by (intro power_int_increasing) simp_all
    ultimately show False using assms(2) by linarith
  qed
  show ?thesis unfolding expo_def
    by (rule Max_eqI [OF fin ub mem])
qed

lemma rne_near: "\<bar>q - of_int m\<bar> < 1 / 2 \<Longrightarrow> rne q = m"
proof -
  assume a: "\<bar>q - of_int m\<bar> < 1 / 2"
  show ?thesis
  proof (cases "of_int m \<le> q")
    case True
    with a have "\<lfloor>q\<rfloor> = m" by (intro floor_unique) linarith+
    with a True show ?thesis by (simp add: rne_def Let_def)
  next
    case False
    with a have "of_int (m - 1) \<le> q" "q < of_int (m - 1) + 1" by simp_all
    then have f: "\<lfloor>q\<rfloor> = m - 1" by (rule floor_unique)
    with a False show ?thesis by (simp add: rne_def Let_def)
  qed
qed


lemma fl_eval:
  assumes "lo = 2 powi k" "u = 2 powi (k - 52)" "- 1022 \<le> k" "k \<le> 1023"
    and "lo \<le> \<bar>x\<bar>" "\<bar>x\<bar> < 2 * lo"
    and "rne (x / u) = m"
    and "\<bar>of_int m * u\<bar> \<le> 2 ^ 10"
  shows "fl x = Fin (of_int m * u)"
proof -
  have "(2::real) powi (k + 1) = 2 * 2 powi k" by (simp add: power_int_add)
  with assms have e: "expo x = k" by (intro expo_eq) simp_all
  have "(2::real) ^ 10 = 2 powi 10" by simp
  also have "\<dots> < 2 powi 1024" by (rule power_int_strict_increasing) simp_all
  finally have "\<bar>of_int m * u\<bar> < overflow_threshold"
    using assms(8) by (simp add: overflow_threshold_def)
  then show ?thesis
    using assms(7) unfolding fl_def e Let_def assms(2) [symmetric]
    by (auto simp: abs_less_iff)
qed

lemma fl_dyadic:
  assumes "lo = 2 powi k" "u = 2 powi (k - 52)" "- 1022 \<le> k" "k \<le> 1023"
    and "lo \<le> \<bar>x\<bar>" "\<bar>x\<bar> < 2 * lo"
    and "x / u = of_int m"
    and "\<bar>x\<bar> \<le> 2 ^ 10"
  shows "fl x = Fin x"
proof -
  have u: "u \<noteq> 0" using assms(2) by simp
  with assms(7) have x: "x = of_int m * u" by (simp add: field_simps)
  have "fl x = Fin (of_int m * u)"
    using assms(1-6) by (rule fl_eval) (simp_all add: assms(7), use assms(8) x in simp)
  with x show ?thesis by simp
qed


lemma fl_5: "fl (5) = Fin (5)"
proof -
  have "fl (5) = Fin (5)"
    by (rule fl_dyadic [where k = "2" and lo = "2 ^ 2" and u = "1 / 2 ^ 50" and m = "\<lfloor>(5) / (1 / 2 ^ 50)\<rfloor>"])
       (simp_all add: power_one_over power_int_def field_simps)
  then show ?thesis by (simp add: power_one_over)
qed

lemma fl_13: "fl (13) = Fin (13)"
proof -
  have "fl (13) = Fin (13)"
    by (rule fl_dyadic [where k = "3" and lo = "2 ^ 3" and u = "1 / 2 ^ 49" and m = "\<lfloor>(13) / (1 / 2 ^ 49)\<rfloor>"])
       (simp_all add: power_one_over power_int_def field_simps)
  then show ?thesis by (simp add: power_one_over)
qed

lemma fl_15: "fl (15) = Fin (15)"
proof -
  have "fl (15) = Fin (15)"
    by (rule fl_dyadic [where k = "3" and lo = "2 ^ 3" and u = "1 / 2 ^ 49" and m = "\<lfloor>(15) / (1 / 2 ^ 49)\<rfloor>"])
       (simp_all add: power_one_over power_int_def field_simps)
  then show ?thesis by (simp add: power_one_over)
qed

lemma fl_20: "fl (20) = Fin (20)"
proof -
  have "fl (20) = Fin (20)"
    by (rule fl_dyadic [where k = "4" and lo = "2 ^ 4" and u = "1 / 2 ^ 48" and m = "\<lfloor>(20) / (1 / 2 ^ 48)\<rfloor>"])
       (simp_all add: power_one_over power_int_def field_simps)
  then show ?thesis by (simp add: power_one_over)
qed

lemma fl_30: "fl (30) = Fin (30)"
proof -
  have "fl (30) = Fin (30)"
    by (rule fl_dyadic [where k = "4" and lo = "2 ^ 4" and u = "1 / 2 ^ 48" and m = "\<lfloor>(30) / (1 / 2 ^ 48)\<rfloor>"])
       (simp_all add: power_one_over power_int_def field_simps)
  then show ?thesis by (simp add: power_one_over)
qed


lemma fl_d0_1: "fl (d0_1) = Fin (d0_1)"
proof -
  have "fl (d0_1) = Fin (d0_1)"
    by (rule fl_dyadic [where k = "-4" and lo = "1 / 2 ^ 4" and u = "1 / 2 ^ 56" and m = "\<lfloor>(d0_1) / (1 / 2 ^ 56)\<rfloor>"])
       (simp_all add: d0_1_def power_int_def field_simps)
  then show ?thesis by (simp add: d0_1_def)
qed

lemma fl_d0_2: "fl (d0_2) = Fin (d0_2)"
proof -
  have "fl (d0_2) = Fin (d0_2)"
    by (rule fl_dyadic [where k = "-3" and lo = "1 / 2 ^ 3" and u = "1 / 2 ^ 55" and m = "\<lfloor>(d0_2) / (1 / 2 ^ 55)\<rfloor>"])
       (simp_all add: d0_2_def power_int_def field_simps)
  then show ?thesis by (simp add: d0_2_def)
qed

lemma fl_d1_3: "fl (d1_3) = Fin (d1_3)"
proof -
  have "fl (d1_3) = Fin (d1_3)"
    by (rule fl_dyadic [where k = "0" and lo = "2 ^ 0" and u = "1 / 2 ^ 52" and m = "\<lfloor>(d1_3) / (1 / 2 ^ 52)\<rfloor>"])
       (simp_all add: d1_3_def power_int_def field_simps)
  then show ?thesis by (simp add: d1_3_def)
qed


lemma fl_d0_2_minus_d0_1: "fl (d0_2 - d0_1) = Fin (d0_1)"
proof -
  have "fl (d0_2 - d0_1) = Fin (d0_2 - d0_1)"
    by (rule fl_dyadic [where k = "-4" and lo = "1 / 2 ^ 4" and u = "1 / 2 ^ 56" and m = "\<lfloor>(d0_2 - d0_1) / (1 / 2 ^ 56)\<rfloor>"])
       (simp_all add: d0_2_def d0_1_def power_int_def field_simps)
  then show ?thesis by (simp add: d0_2_def d0_1_def)
qed

lemma fl_d0_1_plus_d1_1: "fl (d0_1 + d1_1) = Fin d1_2_up"
proof -
  have "fl (d0_1 + d1_1) = Fin (of_int 5404319552844596 * (1 / 2 ^ 52))"
  proof (rule fl_eval [where k = "0" and lo = "2 ^ 0"])
    show "rne ((d0_1 + d1_1) / (1 / 2 ^ 52)) = 5404319552844596"
      by (rule rne_near) (simp add: d0_1_def d1_1_def)
  qed (simp_all add: d0_1_def d1_1_def power_int_def field_simps)
  then show ?thesis by (simp add: d0_1_def d1_1_def d1_2_up_def)
qed

lemma fl_d0_2_plus_d1_1: "fl (d0_2 + d1_1) = Fin d1_3"
proof -
  have "fl (d0_2 + d1_1) = Fin (of_int 5854679515581645 * (1 / 2 ^ 52))"
  proof (rule fl_eval [where k = "0" and lo = "2 ^ 0"])
    show "rne ((d0_2 + d1_1) / (1 / 2 ^ 52)) = 5854679515581645"
      by (rule rne_near) (simp add: d0_2_def d1_1_def)
  qed (simp_all add: d0_2_def d1_1_def power_int_def field_simps)
  then show ?thesis by (simp add: d0_2_def d1_1_def d1_3_def)
qed

lemma fl_d1_3_minus_d0_1: "fl (d1_3 - d0_1) = Fin d1_2"
proof -
  have "fl (d1_3 - d0_1) = Fin (of_int 5404319552844595 * (1 / 2 ^ 52))"
  proof (rule fl_eval [where k = "0" and lo = "2 ^ 0"])
    show "rne ((d1_3 - d0_1) / (1 / 2 ^ 52)) = 5404319552844595"
      by (rule rne_near) (simp add: d1_3_def d0_1_def)
  qed (simp_all add: d1_3_def d0_1_def power_int_def field_simps)
  then show ?thesis by (simp add: d1_3_def d0_1_def d1_2_def)
qed




lemma fl_35: "fl (35) = Fin (35)"
proof -
  have "fl (35) = Fin (35)"
    by (rule fl_dyadic [where k = "5" and lo = "2 ^ 5" and u = "1 / 2 ^ 47" and m = "\<lfloor>(35) / (1 / 2 ^ 47)\<rfloor>"])
       (simp_all add: power_one_over power_int_def field_simps)
  then show ?thesis by (simp add: power_one_over)
qed

lemma fl_55: "fl (55) = Fin (55)"
proof -
  have "fl (55) = Fin (55)"
    by (rule fl_dyadic [where k = "5" and lo = "2 ^ 5" and u = "1 / 2 ^ 47" and m = "\<lfloor>(55) / (1 / 2 ^ 47)\<rfloor>"])
       (simp_all add: power_one_over power_int_def field_simps)
  then show ?thesis by (simp add: power_one_over)
qed

subsection \<open>The ledger\<close>

lemma map_of_obj_set: "map_of (obj_set ob k v) = (map_of ob)(k \<mapsto> v)"
  by (induction ob k v rule: obj_set.induct) auto

lemma map_of_obj_spread_other:
  "k \<notin> fst ` set src \<Longrightarrow> map_of (obj_spread base src) k = map_of base k"
  by (induction base src rule: obj_spread.induct) (auto simp: map_of_obj_set)

lemma obj_get_spread_other:
  "k \<notin> fst ` set src \<Longrightarrow> obj_get (obj_spread base src) k = obj_get base k"
  by (simp add: obj_get_def map_of_obj_spread_other)

lemma balance_persist [simp]: "balance (persist e w) = balance w"
  and transactions_persist [simp]: "transactions (persist e w) = transactions w"
  and tokenService_persist [simp]: "tokenService (persist e w) = tokenService w"
  and notified_persist [simp]: "notified (persist e w) = notified w"
  by (simp_all add: persist_def split: option.splits)

text \<open>
  The two guards: \<open>addFunds\<close> goes on when \<open>amount <= 0\<close> is false, \<open>deductFunds\<close> when
  also \<open>balance < amount\<close> is false.
\<close>

lemma balance_addFunds:
  "balance (snd (addFunds e amount md w)) =
     (case amount of
        JNum a \<Rightarrow> if num_le a (Fin 0) then balance w else num_add (balance w) a
      | _ \<Rightarrow> balance w)"
  by (simp add: addFunds_def notifyListeners_def Let_def split: jsval.splits)

lemma balance_deductFunds:
  "balance (snd (deductFunds e amount md w)) =
     (case amount of
        JNum a \<Rightarrow> if num_le a (Fin 0) \<or> num_lt (balance w) a then balance w
                  else num_sub (balance w) a
      | _ \<Rightarrow> balance w)"
  by (simp add: deductFunds_def notifyListeners_def Let_def split: jsval.splits)

lemma transactions_addFunds:
  "transactions (snd (addFunds e amount md w)) =
     transactions w @ (case amount of
        JNum a \<Rightarrow> if num_le a (Fin 0) then [] else [obj_spread
                  [(''id'', JStr (generateId e)), (''type'', JStr ''credit''),
                   (''amount'', JNum a), (''timestamp'', JStr (toISOString e))] md]
      | _ \<Rightarrow> [])"
  by (simp add: addFunds_def notifyListeners_def Let_def split: jsval.splits)

lemma transactions_deductFunds:
  "transactions (snd (deductFunds e amount md w)) =
     transactions w @ (case amount of
        JNum a \<Rightarrow> if num_le a (Fin 0) \<or> num_lt (balance w) a then [] else [obj_spread
                  [(''id'', JStr (generateId e)), (''type'', JStr ''debit''),
                   (''amount'', JNum a), (''timestamp'', JStr (toISOString e))] md]
      | _ \<Rightarrow> [])"
  by (simp add: deductFunds_def notifyListeners_def Let_def split: jsval.splits)

lemma success_deductFunds:
  "truthy (obj_get (fst (deductFunds e amount md w)) ''success'') \<longleftrightarrow>
     (\<exists>a. amount = JNum a \<and> \<not> num_le a (Fin 0) \<and> \<not> num_lt (balance w) a)"
  by (auto simp add: deductFunds_def notifyListeners_def Let_def obj_get_def failure_def split: jsval.splits)

lemma deductFunds_unchanged:
  "\<not> truthy (obj_get (fst (deductFunds e amount md w)) ''success'') \<Longrightarrow> snd (deductFunds e amount md w) = w"
  by (auto simp add: deductFunds_def notifyListeners_def Let_def obj_get_def failure_def split: jsval.splits)

lemma purchaseToken_deducted:
  assumes "tokenService w = Some createToken"
    and "get_prop td ''value'' = Inr v" and "get_prop td ''id'' = Inr tid"
    and "js_or v (JNum (Fin 0)) = JNum a" and "\<not> num_le a (Fin 0)" and "\<not> num_lt (balance w) a"
  shows "purchaseToken e1 e2 td meanwhile w ts =
     (let w1 = snd (deductFunds e1 (JNum a) [(''purpose'', JStr ''token_purchase''), (''tokenId'', tid)] w)
      in case createToken td ts of
           (Inl msg, ts1) \<Rightarrow> (JObj (failure msg), meanwhile w1, ts1)
         | (Inr tokenResult, ts1) \<Rightarrow>
             (case get_prop tokenResult ''success'' of
                Inl msg \<Rightarrow> (JObj (failure msg), meanwhile w1, ts1)
              | Inr ok \<Rightarrow>
                  if \<not> truthy ok
                  then (tokenResult,
                        snd (addFunds e2 (JNum a) [(''purpose'', JStr ''token_purchase_rollback'')]
                               (meanwhile w1)),
                        ts1)
                  else (JObj [(''success'', JBool True),
                              (''token'', (case get_prop tokenResult ''token'' of
                                             Inl _ \<Rightarrow> JUndefined | Inr t \<Rightarrow> t)),
                              (''balance'', JNum (balance (meanwhile w1)))], meanwhile w1, ts1)))"
proof -
  have ok: "truthy (obj_get (fst (deductFunds e1 (JNum a)
              [(''purpose'', JStr ''token_purchase''), (''tokenId'', tid)] w)) ''success'')"
    using assms(5,6) by (simp add: success_deductFunds)
  have lt: "\<not> js_lt e1 (balance w) (JNum a)"
    using assms(6) by (simp add: js_lt_def)
  show ?thesis
    unfolding purchaseToken_def
    using ok lt by (simp add: assms(1-4) Let_def split_def split: sum.split)
qed

lemma purchaseToken_not_deducted:
  assumes "\<not> (\<exists>createToken v tid a. tokenService w = Some createToken \<and>
             get_prop td ''value'' = Inr v \<and> get_prop td ''id'' = Inr tid \<and>
             js_or v (JNum (Fin 0)) = JNum a \<and> \<not> num_le a (Fin 0) \<and> \<not> num_lt (balance w) a)"
  shows "snd (purchaseToken e1 e2 td meanwhile w ts) = (w, ts)"
proof (cases "tokenService w")
  case None
  then show ?thesis by (simp add: purchaseToken_def)
next
  case (Some createToken)
  show ?thesis
  proof (cases "get_prop td ''value''")
    case (Inl msg)
    with Some show ?thesis by (simp add: purchaseToken_def)
  next
    case (Inr v)
    show ?thesis
    proof (cases "get_prop td ''id''")
      case (Inl msg)
      with Some Inr show ?thesis by (simp add: purchaseToken_def Let_def)
    next
      case tid: (Inr tokenId)
      let ?md = "[(''purpose'', JStr ''token_purchase''), (''tokenId'', tokenId)]"
      have no: "\<not> (\<exists>a. js_or v (JNum (Fin 0)) = JNum a \<and> \<not> num_le a (Fin 0) \<and> \<not> num_lt (balance w) a)"
        using assms Some Inr tid by blast
      then have f: "\<not> truthy (obj_get (fst (deductFunds e1 (js_or v (JNum (Fin 0))) ?md w)) ''success'')"
        by (simp add: success_deductFunds)
      then have u: "snd (deductFunds e1 (js_or v (JNum (Fin 0))) ?md w) = w"
        by (rule deductFunds_unchanged)
      show ?thesis
        unfolding purchaseToken_def
        using f u by (simp add: Some Inr tid Let_def split_def)
    qed
  qed
qed

lemma tokenService_addFunds [simp]: "tokenService (snd (addFunds e amount md w)) = tokenService w"
  by (simp add: addFunds_def notifyListeners_def Let_def split: jsval.splits)

lemma tokenService_deductFunds [simp]: "tokenService (snd (deductFunds e amount md w)) = tokenService w"
  by (simp add: deductFunds_def notifyListeners_def Let_def split: jsval.splits)

lemma purchaseToken_cases:
  obtains (unchanged) "snd (purchaseToken e1 e2 td meanwhile w ts) = (w, ts)"
  | (deducted) v a tid ts1 where "get_prop td ''value'' = Inr v" "js_or v (JNum (Fin 0)) = JNum a"
      "\<not> num_le a (Fin 0)" "\<not> num_lt (balance w) a"
      "snd (purchaseToken e1 e2 td meanwhile w ts) =
         (meanwhile (snd (deductFunds e1 (JNum a)
            [(''purpose'', JStr ''token_purchase''), (''tokenId'', tid)] w)), ts1)"
  | (rolled_back) v a tid ts1 where "get_prop td ''value'' = Inr v" "js_or v (JNum (Fin 0)) = JNum a"
      "\<not> num_le a (Fin 0)" "\<not> num_lt (balance w) a"
      "snd (purchaseToken e1 e2 td meanwhile w ts) =
         (snd (addFunds e2 (JNum a) [(''purpose'', JStr ''token_purchase_rollback'')]
            (meanwhile (snd (deductFunds e1 (JNum a)
               [(''purpose'', JStr ''token_purchase''), (''tokenId'', tid)] w)))), ts1)"
proof (cases "\<exists>createToken v tid a. tokenService w = Some createToken \<and>
             get_prop td ''value'' = Inr v \<and> get_prop td ''id'' = Inr tid \<and>
             js_or v (JNum (Fin 0)) = JNum a \<and> \<not> num_le a (Fin 0) \<and> \<not> num_lt (balance w) a")
  case False
  then have "snd (purchaseToken e1 e2 td meanwhile w ts) = (w, ts)"
    by (rule purchaseToken_not_deducted)
  then show ?thesis by (rule unchanged)
next
  case True
  then obtain createToken v tid a where h: "tokenService w = Some createToken"
     "get_prop td ''value'' = Inr v" "get_prop td ''id'' = Inr tid"
     "js_or v (JNum (Fin 0)) = JNum a" "\<not> num_le a (Fin 0)" "\<not> num_lt (balance w) a" by blast
  note eq = purchaseToken_deducted [OF h, of e1 e2 meanwhile ts]
  obtain r ts1 where c: "createToken td ts = (r, ts1)" by (cases "createToken td ts")
  show ?thesis
  proof (cases r)
    case (Inl msg)
    with eq c have "snd (purchaseToken e1 e2 td meanwhile w ts) =
         (meanwhile (snd (deductFunds e1 (JNum a)
            [(''purpose'', JStr ''token_purchase''), (''tokenId'', tid)] w)), ts1)"
      by (simp add: Let_def)
    then show ?thesis using deducted h(2,4,5,6) by blast
  next
    case (Inr tokenResult)
    show ?thesis
    proof (cases "get_prop tokenResult ''success''")
      case (Inl msg)
      with eq c Inr have "snd (purchaseToken e1 e2 td meanwhile w ts) =
         (meanwhile (snd (deductFunds e1 (JNum a)
            [(''purpose'', JStr ''token_purchase''), (''tokenId'', tid)] w)), ts1)"
        by (simp add: Let_def)
      then show ?thesis using deducted h(2,4,5,6) by blast
    next
      case ok: (Inr ok)
      show ?thesis
      proof (cases "truthy ok")
        case True
        with eq c Inr ok have "snd (purchaseToken e1 e2 td meanwhile w ts) =
         (meanwhile (snd (deductFunds e1 (JNum a)
            [(''purpose'', JStr ''token_purchase''), (''tokenId'', tid)] w)), ts1)"
          by (simp add: Let_def)
        then show ?thesis using deducted h(2,4,5,6) by blast
      next
        case False
        with eq c Inr ok have "snd (purchaseToken e1 e2 td meanwhile w ts) =
         (snd (addFunds e2 (JNum a) [(''purpose'', JStr ''token_purchase_rollback'')]
            (meanwhile (snd (deductFunds e1 (JNum a)
               [(''purpose'', JStr ''token_purchase''), (''tokenId'', tid)] w)))), ts1)"
          by (simp add: Let_def)
        then show ?thesis using rolled_back h(2,4,5,6) by blast
      qed
    qed
  qed
qed

text \<open>The first part of a purchase either leaves the wallet or is a deduction of a sound amount.\<close>

lemma purchase_begin_cases:
  obtains (unchanged) "purchase_begin e1 td w = w"
  | (deducted) v tid where "get_prop td ''value'' = Inr v"
      "purchase_begin e1 td w =
         snd (deductFunds e1 (js_or v (JNum (Fin 0)))
                [(''purpose'', JStr ''token_purchase''), (''tokenId'', tid)] w)"
proof -
  have "purchase_begin e1 td w = w \<or>
        (\<exists>v tid. get_prop td ''value'' = Inr v \<and>
           purchase_begin e1 td w =
             snd (deductFunds e1 (js_or v (JNum (Fin 0)))
                    [(''purpose'', JStr ''token_purchase''), (''tokenId'', tid)] w))"
    by (auto simp add: purchase_begin_def Let_def split: option.splits sum.splits)
  with that show ?thesis by blast
qed

lemma purchase_end_cases:
  obtains (unchanged) "purchase_end e2 amount r w = w"
  | (rolled_back) "purchase_end e2 amount r w =
         snd (addFunds e2 amount [(''purpose'', JStr ''token_purchase_rollback'')] w)"
proof -
  have "purchase_end e2 amount r w = w \<or>
        purchase_end e2 amount r w =
          snd (addFunds e2 amount [(''purpose'', JStr ''token_purchase_rollback'')] w)"
    by (simp add: purchase_end_def split: sum.splits)
  with that show ?thesis by blast
qed

text \<open>
  The balance as a sum of money: a number that is not negative, which \<open>Infinity\<close> is and
  NaN is not. Calls with sound amounts keep it one.
\<close>

lemma num_le_zero: "num_le (Fin 0) b \<longleftrightarrow> b = PInf \<or> (\<exists>x. b = Fin x \<and> 0 \<le> x)"
  by (cases b) simp_all

lemma add_nonneg:
  assumes "num_le (Fin 0) b" "\<not> num_le a (Fin 0)" "a \<noteq> NaN"
  shows "num_le (Fin 0) (num_add b a)"
proof (cases a)
  case (Fin x)
  with assms(2) have x: "0 < x" by simp
  show ?thesis
  proof (cases b)
    case (Fin y)
    with assms(1) x show ?thesis by (simp add: \<open>a = Fin x\<close> fl_nonneg)
  qed (use assms(1) Fin in simp_all)
next
  case PInf
  with assms(1) show ?thesis by (cases b) simp_all
qed (use assms in simp_all)

lemma sub_nonneg:
  assumes "num_le (Fin 0) b" "\<not> num_le a (Fin 0)" "\<not> num_lt b a" "a \<noteq> NaN" "a \<noteq> PInf"
  shows "num_le (Fin 0) (num_sub b a)"
proof (cases a)
  case (Fin x)
  show ?thesis
  proof (cases b)
    case (Fin y)
    with assms(3) show ?thesis by (simp add: \<open>a = Fin x\<close> fl_nonneg)
  qed (use assms(1) Fin in simp_all)
qed (use assms in simp_all)

lemma addFunds_nonneg:
  assumes "num_le (Fin 0) (balance w)" "amount \<noteq> JNum NaN"
  shows "num_le (Fin 0) (balance (snd (addFunds e amount md w)))"
  using assms by (cases amount) (auto simp add: balance_addFunds intro: add_nonneg)

lemma deductFunds_nonneg:
  assumes "num_le (Fin 0) (balance w)" "amount \<noteq> JNum NaN" "amount \<noteq> JNum PInf"
  shows "num_le (Fin 0) (balance (snd (deductFunds e amount md w)))"
  using assms by (cases amount) (auto simp add: balance_deductFunds intro: sub_nonneg)

lemma wallet_step_nonneg:
  assumes "num_le (Fin 0) (balance (fst st))" "ledger_call c" "sound_amount c"
  shows "num_le (Fin 0) (balance (fst (wallet_step c st)))"
proof (cases st)
  case (Pair w ts)
  with assms have w: "num_le (Fin 0) (balance w)" by simp
  show ?thesis
  proof (cases c)
    case (InitializeWallet e)
    with assms(2) show ?thesis by simp
  next
    case (AddFunds e amount md)
    with Pair w assms(3) show ?thesis by (simp add: addFunds_nonneg)
  next
    case (DeductFunds e amount md)
    with Pair w assms(3) show ?thesis by (simp add: deductFunds_nonneg)
  next
    case (PurchaseToken e1 e2 td)
    show ?thesis
    proof (cases rule: purchaseToken_cases [of e1 e2 td "\<lambda>w. w" w ts])
      case unchanged
      with Pair PurchaseToken w show ?thesis by simp
    next
      case (deducted v a tid ts1)
      from deducted(1,2) PurchaseToken assms(3) have a: "a \<noteq> PInf" "a \<noteq> NaN"
        by (auto simp: js_or_def split: if_splits)
      with deducted Pair PurchaseToken w show ?thesis
        by (simp add: deductFunds_nonneg)
    next
      case (rolled_back v a tid ts1)
      from rolled_back(1,2) PurchaseToken assms(3) have a: "a \<noteq> PInf" "a \<noteq> NaN"
        by (auto simp: js_or_def split: if_splits)
      with rolled_back Pair PurchaseToken w show ?thesis
        by (simp add: deductFunds_nonneg addFunds_nonneg)
    qed
  next
    case (PurchaseBegin e1 td)
    show ?thesis
    proof (cases rule: purchase_begin_cases [of e1 td w])
      case unchanged
      with Pair PurchaseBegin w show ?thesis by simp
    next
      case (deducted v tid)
      from deducted(1) PurchaseBegin assms(3)
      have "js_or v (JNum (Fin 0)) \<noteq> JNum NaN" "js_or v (JNum (Fin 0)) \<noteq> JNum PInf"
        by (auto simp: js_or_def split: if_splits)
      with deducted(2) Pair PurchaseBegin w show ?thesis by (simp add: deductFunds_nonneg)
    qed
  next
    case (PurchaseCreate td)
    with Pair w show ?thesis by simp
  next
    case (PurchaseEnd e2 amount r)
    show ?thesis
    proof (cases rule: purchase_end_cases [of e2 amount r w])
      case unchanged
      with Pair PurchaseEnd w show ?thesis by simp
    next
      case rolled_back
      with Pair PurchaseEnd w assms(3) show ?thesis by (simp add: addFunds_nonneg)
    qed
  qed
qed

lemma wallet_run_nonneg:
  "num_le (Fin 0) (balance (fst st)) \<Longrightarrow> \<forall>c \<in> set cs. ledger_call c \<and> sound_amount c \<Longrightarrow>
   num_le (Fin 0) (balance (fst (wallet_run cs st)))"
  by (induction cs arbitrary: st) (simp_all add: wallet_step_nonneg)

lemma deductFunds_insufficient:
  assumes "num_le (Fin 0) (balance w)" "num_lt (balance w) a"
  shows "deductFunds e (JNum a) metadata w = (failure ''Insufficient funds'', w)"
proof -
  have "\<not> num_le a (Fin 0)"
    using assms by (cases a; cases "balance w") simp_all
  with assms(2) show ?thesis by (simp add: deductFunds_def)
qed

text \<open>
  So, from a balance that is a sum of money, calls with sound amounts never lead to a
  negative balance, and in every wallet they reach a deduction above the balance is
  refused with the wallet left as it was.
\<close>

lemma sound_wallet_run:
  assumes "num_le (Fin 0) (balance w0)" "\<forall>c \<in> set cs. ledger_call c \<and> sound_amount c"
  shows "num_le (Fin 0) (balance (fst (wallet_run cs (w0, ts0)))) \<and>
         (\<forall>e a metadata. num_lt (balance (fst (wallet_run cs (w0, ts0)))) a \<longrightarrow>
            deductFunds e (JNum a) metadata (fst (wallet_run cs (w0, ts0))) =
              (failure ''Insufficient funds'', fst (wallet_run cs (w0, ts0))))"
  using wallet_run_nonneg [of "(w0, ts0)" cs] assms by (simp add: deductFunds_insufficient)

lemma addFunds_fst:
  "fst (addFunds e amount md w) =
     (case amount of
        JNum a \<Rightarrow> if num_le a (Fin 0) then failure ''Invalid amount'' else
           [(''success'', JBool True), (''balance'', JNum (num_add (balance w) a)),
            (''transaction'', JObj (obj_spread
                  [(''id'', JStr (generateId e)), (''type'', JStr ''credit''),
                   (''amount'', JNum a), (''timestamp'', JStr (toISOString e))] md))]
      | _ \<Rightarrow> failure ''Invalid amount'')"
  by (simp add: addFunds_def notifyListeners_def Let_def split: jsval.splits)

lemma deductFunds_fst:
  "fst (deductFunds e amount md w) =
     (case amount of
        JNum a \<Rightarrow> if num_le a (Fin 0) then failure ''Invalid amount''
           else if num_lt (balance w) a then failure ''Insufficient funds''
           else
           [(''success'', JBool True), (''balance'', JNum (num_sub (balance w) a)),
            (''transaction'', JObj (obj_spread
                  [(''id'', JStr (generateId e)), (''type'', JStr ''debit''),
                   (''amount'', JNum a), (''timestamp'', JStr (toISOString e))] md))]
      | _ \<Rightarrow> failure ''Invalid amount'')"
  by (simp add: deductFunds_def notifyListeners_def Let_def split: jsval.splits)

lemma addFunds_unchanged:
  "\<not> truthy (obj_get (fst (addFunds e amount md w)) ''success'') \<Longrightarrow> snd (addFunds e amount md w) = w"
  by (auto simp add: addFunds_def notifyListeners_def Let_def obj_get_def failure_def split: jsval.splits)

lemma entry_fields:
  assumes "''type'' \<notin> fst ` set md" and "''amount'' \<notin> fst ` set md"
  shows "obj_get (obj_spread [(''id'', i), (''type'', ty), (''amount'', JNum a), (''timestamp'', t)] md)
           ''type'' = ty"
    and "tx_num (obj_spread [(''id'', i), (''type'', ty), (''amount'', JNum a), (''timestamp'', t)] md) = a"
  using assms by (simp_all add: tx_num_def obj_get_spread_other) (simp_all add: obj_get_def)

lemma replay_append: "replay b (xs @ ys) = replay (replay b xs) ys"
  by (induction xs arbitrary: b) simp_all

lemma credits_Cons:
  "credits (t # txs) = (if obj_get t ''type'' = JStr ''credit'' then tx_amount t else 0) + credits txs"
  and debits_Cons:
  "debits (t # txs) = (if obj_get t ''type'' = JStr ''debit'' then tx_amount t else 0) + debits txs"
  by (simp_all add: credits_def debits_def)

lemma credits_Nil: "credits [] = 0" and debits_Nil: "debits [] = 0"
  by (simp_all add: credits_def debits_def)

lemma replay_exact:
  "exact_replay b txs \<Longrightarrow> replay (Fin b) txs = Fin (b + credits txs - debits txs)"
proof (induction txs arbitrary: b)
  case Nil
  then show ?case by (simp add: credits_Nil debits_Nil)
next
  case (Cons t txs)
  show ?case
  proof (cases "obj_get t ''type'' = JStr ''credit''")
    case True
    with Cons.prems have h: "tx_num t = Fin (tx_amount t)"
      "fl (b + tx_amount t) = Fin (b + tx_amount t)" "exact_replay (b + tx_amount t) txs"
      by simp_all
    from Cons.IH [OF h(3)] True h(1,2) show ?thesis
      by (simp add: credits_Cons debits_Cons)
  next
    case False
    note nc = this
    show ?thesis
    proof (cases "obj_get t ''type'' = JStr ''debit''")
      case True
      with Cons.prems nc have h: "tx_num t = Fin (tx_amount t)"
        "fl (b - tx_amount t) = Fin (b - tx_amount t)" "exact_replay (b - tx_amount t) txs"
        by simp_all
      from Cons.IH [OF h(3)] True nc h(1,2) show ?thesis
        by (simp add: credits_Cons debits_Cons)
    next
      case False
      with Cons.prems nc have "exact_replay b txs" by simp
      from Cons.IH [OF this] False nc show ?thesis
        by (simp add: credits_Cons debits_Cons)
    qed
  qed
qed

lemma created_by_addFunds:
  "returned_transaction (fst (addFunds e amount md w)) =
     (case amount of
        JNum a \<Rightarrow> if num_le a (Fin 0) then [] else [obj_spread
                  [(''id'', JStr (generateId e)), (''type'', JStr ''credit''),
                   (''amount'', JNum a), (''timestamp'', JStr (toISOString e))] md]
      | _ \<Rightarrow> [])"
  by (simp add: addFunds_fst returned_transaction_def obj_get_def failure_def split: jsval.splits)

lemma created_by_deductFunds:
  "returned_transaction (fst (deductFunds e amount md w)) =
     (case amount of
        JNum a \<Rightarrow> if num_le a (Fin 0) \<or> num_lt (balance w) a then [] else [obj_spread
                  [(''id'', JStr (generateId e)), (''type'', JStr ''debit''),
                   (''amount'', JNum a), (''timestamp'', JStr (toISOString e))] md]
      | _ \<Rightarrow> [])"
  by (simp add: deductFunds_fst returned_transaction_def obj_get_def failure_def split: jsval.splits)

text \<open>
  What \<open>addFunds\<close> and \<open>deductFunds\<close> append, and that the balance they leave is the
  balance they found with what they append replayed.
\<close>

lemma addFunds_appends:
  "\<exists>new. transactions (snd (addFunds e amount md w)) = transactions w @ new \<and>
         (''type'' \<notin> fst ` set md \<and> ''amount'' \<notin> fst ` set md \<longrightarrow>
            balance (snd (addFunds e amount md w)) = replay (balance w) new)"
  by (cases amount) (simp_all add: transactions_addFunds balance_addFunds entry_fields)

lemma deductFunds_appends:
  "\<exists>new. transactions (snd (deductFunds e amount md w)) = transactions w @ new \<and>
         (''type'' \<notin> fst ` set md \<and> ''amount'' \<notin> fst ` set md \<longrightarrow>
            balance (snd (deductFunds e amount md w)) = replay (balance w) new)"
  by (cases amount) (simp_all add: transactions_deductFunds balance_deductFunds entry_fields)

lemma addFunds_appends_plain:
  assumes "''type'' \<notin> fst ` set md" "''amount'' \<notin> fst ` set md"
  shows "\<exists>new. transactions (snd (addFunds e amount md w)) = transactions w @ new \<and>
           balance (snd (addFunds e amount md w)) = replay (balance w) new"
  by (cases amount) (simp_all add: transactions_addFunds balance_addFunds entry_fields assms)

lemma deductFunds_appends_plain:
  assumes "''type'' \<notin> fst ` set md" "''amount'' \<notin> fst ` set md"
  shows "\<exists>new. transactions (snd (deductFunds e amount md w)) = transactions w @ new \<and>
           balance (snd (deductFunds e amount md w)) = replay (balance w) new"
  by (cases amount) (simp_all add: transactions_deductFunds balance_deductFunds entry_fields assms)

lemma appends_trans:
  assumes "transactions w1 = transactions w @ new1 \<and> balance w1 = replay (balance w) new1"
    and "transactions w2 = transactions w1 @ new2 \<and> balance w2 = replay (balance w1) new2"
  shows "\<exists>new. transactions w2 = transactions w @ new \<and> balance w2 = replay (balance w) new"
  using assms by (intro exI [of _ "new1 @ new2"]) (simp add: replay_append)

lemma wallet_step_appends:
  assumes "ledger_call c"
  shows "\<exists>new. transactions (fst (wallet_step c st)) = transactions (fst st) @ new \<and>
           (plain_metadata c \<longrightarrow> balance (fst (wallet_step c st)) = replay (balance (fst st)) new)"
proof (cases st)
  case (Pair w ts)
  show ?thesis
  proof (cases c)
    case (InitializeWallet e)
    with assms show ?thesis by simp
  next
    case (AddFunds e amount md)
    with Pair addFunds_appends [of e amount md w] show ?thesis by simp
  next
    case (DeductFunds e amount md)
    with Pair deductFunds_appends [of e amount md w] show ?thesis by simp
  next
    case (PurchaseToken e1 e2 td)
    show ?thesis
    proof (cases rule: purchaseToken_cases [of e1 e2 td "\<lambda>w. w" w ts])
      case unchanged
      with Pair PurchaseToken show ?thesis by simp
    next
      case (deducted v a tid ts1)
      let ?md = "[(''purpose'', JStr ''token_purchase''), (''tokenId'', tid)]"
      have "\<exists>new. transactions (snd (deductFunds e1 (JNum a) ?md w)) = transactions w @ new \<and>
          balance (snd (deductFunds e1 (JNum a) ?md w)) = replay (balance w) new"
        by (rule deductFunds_appends_plain) simp_all
      then obtain new where "transactions (snd (deductFunds e1 (JNum a) ?md w)) = transactions w @ new"
        "balance (snd (deductFunds e1 (JNum a) ?md w)) = replay (balance w) new"
        by blast
      with deducted(5) Pair PurchaseToken show ?thesis by simp
    next
      case (rolled_back v a tid ts1)
      let ?md = "[(''purpose'', JStr ''token_purchase''), (''tokenId'', tid)]"
      let ?w1 = "snd (deductFunds e1 (JNum a) ?md w)"
      let ?w2 = "snd (addFunds e2 (JNum a) [(''purpose'', JStr ''token_purchase_rollback'')] ?w1)"
      have "\<exists>new1. transactions ?w1 = transactions w @ new1 \<and>
        balance ?w1 = replay (balance w) new1"
        by (rule deductFunds_appends_plain) simp_all
      then obtain new1 where 1: "transactions ?w1 = transactions w @ new1 \<and>
        balance ?w1 = replay (balance w) new1"
        by blast
      have "\<exists>new2. transactions ?w2 = transactions ?w1 @ new2 \<and>
        balance ?w2 = replay (balance ?w1) new2"
        by (rule addFunds_appends_plain) simp_all
      then obtain new2 where 2: "transactions ?w2 = transactions ?w1 @ new2 \<and>
        balance ?w2 = replay (balance ?w1) new2"
        by blast
      from appends_trans [OF 1 2] rolled_back(5) Pair PurchaseToken show ?thesis by simp
    qed
  next
    case (PurchaseBegin e1 td)
    show ?thesis
    proof (cases rule: purchase_begin_cases [of e1 td w])
      case unchanged
      with Pair PurchaseBegin show ?thesis by simp
    next
      case (deducted v tid)
      let ?md = "[(''purpose'', JStr ''token_purchase''), (''tokenId'', tid)]"
      have "\<exists>new. transactions (snd (deductFunds e1 (js_or v (JNum (Fin 0))) ?md w))
          = transactions w @ new \<and>
        balance (snd (deductFunds e1 (js_or v (JNum (Fin 0))) ?md w)) = replay (balance w) new"
        by (rule deductFunds_appends_plain) simp_all
      then obtain new where "transactions (snd (deductFunds e1 (js_or v (JNum (Fin 0))) ?md w))
          = transactions w @ new"
        "balance (snd (deductFunds e1 (js_or v (JNum (Fin 0))) ?md w)) = replay (balance w) new"
        by blast
      with deducted(2) Pair PurchaseBegin show ?thesis by simp
    qed
  next
    case (PurchaseCreate td)
    with Pair show ?thesis by simp
  next
    case (PurchaseEnd e2 amount r)
    show ?thesis
    proof (cases rule: purchase_end_cases [of e2 amount r w])
      case unchanged
      with Pair PurchaseEnd show ?thesis by simp
    next
      case rolled_back
      have "\<exists>new. transactions (snd (addFunds e2 amount
            [(''purpose'', JStr ''token_purchase_rollback'')] w)) = transactions w @ new \<and>
        balance (snd (addFunds e2 amount
            [(''purpose'', JStr ''token_purchase_rollback'')] w)) = replay (balance w) new"
        by (rule addFunds_appends_plain) simp_all
      then obtain new where "transactions (snd (addFunds e2 amount
            [(''purpose'', JStr ''token_purchase_rollback'')] w)) = transactions w @ new"
        "balance (snd (addFunds e2 amount
            [(''purpose'', JStr ''token_purchase_rollback'')] w)) = replay (balance w) new"
        by blast
      with rolled_back Pair PurchaseEnd show ?thesis by simp
    qed
  qed
qed

lemma wallet_step_created:
  assumes "ledger_call c"
  shows "transactions (fst (wallet_step c st)) = transactions (fst st) @ created_by c st"
proof (cases st)
  case (Pair w ts)
  from wallet_step_appends [OF assms, of st] obtain new where
    n: "transactions (fst (wallet_step c st)) = transactions (fst st) @ new" by blast
  show ?thesis
  proof (cases c)
    case (InitializeWallet e)
    with assms show ?thesis by simp
  next
    case (AddFunds e amount md)
    with Pair show ?thesis by (simp add: transactions_addFunds created_by_addFunds)
  next
    case (DeductFunds e amount md)
    with Pair show ?thesis by (simp add: transactions_deductFunds created_by_deductFunds)
  next
    case (PurchaseToken e1 e2 td)
    with Pair n show ?thesis by simp
  next
    case (PurchaseBegin e1 td)
    with Pair n show ?thesis by simp
  next
    case (PurchaseCreate td)
    with Pair n show ?thesis by simp
  next
    case (PurchaseEnd e2 amount r)
    with Pair n show ?thesis by simp
  qed
qed

lemma wallet_step_replay:
  assumes "ledger_call c" "plain_metadata c"
  shows "balance (fst (wallet_step c st)) = replay (balance (fst st)) (created_by c st)"
proof -
  from wallet_step_appends [OF assms(1), of st] assms(2) obtain new where
    n: "transactions (fst (wallet_step c st)) = transactions (fst st) @ new"
       "balance (fst (wallet_step c st)) = replay (balance (fst st)) new" by blast
  from wallet_step_created [OF assms(1), of st] n(1) have "created_by c st = new" by simp
  with n(2) show ?thesis by simp
qed

lemma wallet_run_created:
  "\<forall>c \<in> set cs. ledger_call c \<Longrightarrow>
   transactions (fst (wallet_run cs st)) = transactions (fst st) @ created cs st"
  by (induction cs arbitrary: st) (simp_all add: wallet_step_created)

lemma wallet_run_replay:
  "\<forall>c \<in> set cs. ledger_call c \<and> plain_metadata c \<Longrightarrow>
   balance (fst (wallet_run cs st)) = replay (balance (fst st)) (created cs st)"
  by (induction cs arbitrary: st) (simp_all add: wallet_step_replay replay_append)

lemma get_prop_defined:
  "get_prop td k = Inr v \<Longrightarrow> \<exists>v'. get_prop td k' = Inr v'"
  by (cases td) simp_all

text \<open>
  A purchase that passes its guards is its three parts, with what other calls did to
  the wallet between the first and the last.
\<close>

lemma purchaseToken_parts:
  assumes "tokenService w = Some createToken"
    and "get_prop td ''value'' = Inr v" and "get_prop td ''id'' = Inr tid"
    and "js_or v (JNum (Fin 0)) = JNum a" and "\<not> num_le a (Fin 0)" and "\<not> num_lt (balance w) a"
  shows "snd (purchaseToken e1 e2 td meanwhile w ts) =
           (purchase_end e2 (JNum a) (fst (createToken td ts)) (meanwhile (purchase_begin e1 td w)),
            purchase_create td w ts)"
proof -
  have lt: "\<not> js_lt e1 (balance w) (JNum a)"
    using assms(6) by (simp add: js_lt_def)
  have b: "purchase_begin e1 td w =
      snd (deductFunds e1 (JNum a) [(''purpose'', JStr ''token_purchase''), (''tokenId'', tid)] w)"
    using lt by (simp add: purchase_begin_def assms(1-4) Let_def)
  obtain r ts1 where c: "createToken td ts = (r, ts1)" by (cases "createToken td ts")
  show ?thesis
    unfolding purchaseToken_deducted [OF assms] b
    by (simp add: c purchase_end_def purchase_create_def assms(1) Let_def split: sum.split)
qed

text \<open>
  C1 fails on the code. The guard \<open>typeof amount !== 'number' || amount <= 0\<close> and the
  test \<open>this.balance < amount\<close> are both false of NaN, so \<open>deductFunds(NaN)\<close> on a wallet
  that holds 10 succeeds and leaves the balance NaN, which is no amount at or above
  zero; from then on no deduction is refused: \<open>deductFunds(1000)\<close> succeeds. The guards
  let \<open>Infinity\<close> through as well, and \<open>addFunds(Infinity)\<close> followed by
  \<open>deductFunds(Infinity)\<close> ends in NaN too. (With these amounts set aside the claim
  holds: lemma \<open>sound_wallet_run\<close>.)
\<close>

theorem deductFunds_accepts_nan:
  "obj_get (fst (deductFunds (test_env ''tx_1'' ''t1'') (JNum NaN) [] (wallet_of (Fin 10))))
       ''success'' = JBool True
   \<and> balance (fst (wallet_run [DeductFunds (test_env ''tx_1'' ''t1'') (JNum NaN) []]
        (wallet_of (Fin 10), ()))) = NaN
   \<and> \<not> num_le (Fin 0) (balance (fst (wallet_run
        [DeductFunds (test_env ''tx_1'' ''t1'') (JNum NaN) []] (wallet_of (Fin 10), ()))))
   \<and> obj_get (fst (deductFunds (test_env ''tx_2'' ''t2'') (JNum (Fin 1000)) []
        (fst (wallet_run [DeductFunds (test_env ''tx_1'' ''t1'') (JNum NaN) []]
           (wallet_of (Fin 10), ()))))) ''success'' = JBool True
   \<and> balance (fst (wallet_run
        [AddFunds (test_env ''tx_1'' ''t1'') (JNum PInf) [],
         DeductFunds (test_env ''tx_2'' ''t2'') (JNum PInf) []] (wallet_of (Fin 10), ()))) = NaN"
  by (simp add: deductFunds_fst balance_deductFunds balance_addFunds obj_get_def wallet_of_def)




text \<open>
  C8, as the code has it. The ledger calls (\<open>addFunds\<close>, \<open>deductFunds\<close>,
  \<open>purchaseToken\<close>, also a purchase in its parts with other calls between them) only
  add to the end of the transaction list: after any run of them it is the list before
  the run followed by the transactions the successful calls created, in the order of
  the calls. A successful \<open>addFunds\<close> or \<open>deductFunds\<close>
  appends exactly the transaction it returns; a failed one leaves the list as it was.
\<close>

theorem transactions_append_only:
  "((\<forall>c \<in> set cs. ledger_call c) \<longrightarrow>
      transactions (fst (wallet_run cs st)) = transactions (fst st) @ created cs st)
   \<and> (truthy (obj_get (fst (addFunds e amount metadata w)) ''success'') \<longrightarrow>
        (\<exists>t. obj_get (fst (addFunds e amount metadata w)) ''transaction'' = JObj t \<and>
             transactions (snd (addFunds e amount metadata w)) = transactions w @ [t]))
   \<and> (truthy (obj_get (fst (deductFunds e amount metadata w)) ''success'') \<longrightarrow>
        (\<exists>t. obj_get (fst (deductFunds e amount metadata w)) ''transaction'' = JObj t \<and>
             transactions (snd (deductFunds e amount metadata w)) = transactions w @ [t]))
   \<and> (\<not> truthy (obj_get (fst (addFunds e amount metadata w)) ''success'') \<longrightarrow>
        transactions (snd (addFunds e amount metadata w)) = transactions w)
   \<and> (\<not> truthy (obj_get (fst (deductFunds e amount metadata w)) ''success'') \<longrightarrow>
        transactions (snd (deductFunds e amount metadata w)) = transactions w)"
proof (intro conjI impI)
  assume "\<forall>c \<in> set cs. ledger_call c"
  then show "transactions (fst (wallet_run cs st)) = transactions (fst st) @ created cs st"
    by (rule wallet_run_created)
next
  assume "truthy (obj_get (fst (addFunds e amount metadata w)) ''success'')"
  then show "\<exists>t. obj_get (fst (addFunds e amount metadata w)) ''transaction'' = JObj t \<and>
             transactions (snd (addFunds e amount metadata w)) = transactions w @ [t]"
    by (auto simp add: addFunds_fst transactions_addFunds obj_get_def failure_def
        split: jsval.splits if_splits)
next
  assume "truthy (obj_get (fst (deductFunds e amount metadata w)) ''success'')"
  then show "\<exists>t. obj_get (fst (deductFunds e amount metadata w)) ''transaction'' = JObj t \<and>
             transactions (snd (deductFunds e amount metadata w)) = transactions w @ [t]"
    by (auto simp add: deductFunds_fst transactions_deductFunds obj_get_def failure_def
        split: jsval.splits if_splits)
next
  assume "\<not> truthy (obj_get (fst (addFunds e amount metadata w)) ''success'')"
  then show "transactions (snd (addFunds e amount metadata w)) = transactions w"
    by (simp add: addFunds_unchanged)
next
  assume "\<not> truthy (obj_get (fst (deductFunds e amount metadata w)) ''success'')"
  then show "transactions (snd (deductFunds e amount metadata w)) = transactions w"
    by (simp add: deductFunds_unchanged)
qed

theorem transactions_append_only_witness:
  "ledger_call (AddFunds (test_env ''tx_1'' ''t1'') (JNum (Fin 5)) [(''note'', JStr ''gift'')])
   \<and> ledger_call (DeductFunds (test_env ''tx_2'' ''t2'') (JNum (Fin 20)) [])
   \<and> ledger_call (DeductFunds (test_env ''tx_3'' ''t3'') (JNum (Fin 2)) [])
   \<and> transactions (fst (wallet_run
        [AddFunds (test_env ''tx_1'' ''t1'') (JNum (Fin 5)) [(''note'', JStr ''gift'')],
         DeductFunds (test_env ''tx_2'' ''t2'') (JNum (Fin 20)) [],
         DeductFunds (test_env ''tx_3'' ''t3'') (JNum (Fin 2)) []]
        ((wallet_of (Fin 10))\<lparr>transactions := [[(''id'', JStr ''old'')]]\<rparr>, ())))
      = [[(''id'', JStr ''old'')],
         [(''id'', JStr ''tx_1''), (''type'', JStr ''credit''), (''amount'', JNum (Fin 5)),
          (''timestamp'', JStr ''t1''), (''note'', JStr ''gift'')],
         [(''id'', JStr ''tx_3''), (''type'', JStr ''debit''), (''amount'', JNum (Fin 2)),
          (''timestamp'', JStr ''t3'')]]
   \<and> truthy (obj_get (fst (addFunds (test_env ''tx_1'' ''t1'') (JNum (Fin 5)) [(''note'', JStr ''gift'')]
        ((wallet_of (Fin 1))\<lparr>transactions := [[(''id'', JStr ''old'')]]\<rparr>))) ''success'')
   \<and> (\<exists>t. obj_get (fst (addFunds (test_env ''tx_1'' ''t1'') (JNum (Fin 5)) [(''note'', JStr ''gift'')]
        ((wallet_of (Fin 1))\<lparr>transactions := [[(''id'', JStr ''old'')]]\<rparr>))) ''transaction'' = JObj t
        \<and> transactions (snd (addFunds (test_env ''tx_1'' ''t1'') (JNum (Fin 5)) [(''note'', JStr ''gift'')]
        ((wallet_of (Fin 1))\<lparr>transactions := [[(''id'', JStr ''old'')]]\<rparr>))) = [[(''id'', JStr ''old'')], t])
   \<and> \<not> truthy (obj_get (fst (deductFunds (test_env ''tx_1'' ''t1'') (JNum (Fin 5)) [(''note'', JStr ''gift'')]
        ((wallet_of (Fin 1))\<lparr>transactions := [[(''id'', JStr ''old'')]]\<rparr>))) ''success'')
   \<and> transactions (snd (deductFunds (test_env ''tx_1'' ''t1'') (JNum (Fin 5)) [(''note'', JStr ''gift'')]
        ((wallet_of (Fin 1))\<lparr>transactions := [[(''id'', JStr ''old'')]]\<rparr>))) = [[(''id'', JStr ''old'')]]
   \<and> transactions (fst (wallet_run
        [PurchaseBegin (test_env ''tx_1'' ''t1'') (JObj [(''id'', JStr ''tok''), (''value'', JNum (Fin 20))]),
         AddFunds (test_env ''tx_2'' ''t2'') (JNum (Fin 5)) [],
         PurchaseCreate (JObj [(''id'', JStr ''tok''), (''value'', JNum (Fin 20))]),
         PurchaseEnd (test_env ''tx_3'' ''t3'') (JNum (Fin 20)) (Inr (JObj (failure ''rejected'')))]
        (rejecting_wallet (Fin 50), ())))
      = [[(''id'', JStr ''tx_1''), (''type'', JStr ''debit''), (''amount'', JNum (Fin 20)),
          (''timestamp'', JStr ''t1''), (''purpose'', JStr ''token_purchase''),
          (''tokenId'', JStr ''tok'')],
         [(''id'', JStr ''tx_2''), (''type'', JStr ''credit''), (''amount'', JNum (Fin 5)),
          (''timestamp'', JStr ''t2'')],
         [(''id'', JStr ''tx_3''), (''type'', JStr ''credit''), (''amount'', JNum (Fin 20)),
          (''timestamp'', JStr ''t3''), (''purpose'', JStr ''token_purchase_rollback'')]]"
proof -
  let ?td = "JObj [(''id'', JStr ''tok''), (''value'', JNum (Fin 20))]"
  let ?ps = "[PurchaseBegin (test_env ''tx_1'' ''t1'') ?td,
         AddFunds (test_env ''tx_2'' ''t2'') (JNum (Fin 5)) [],
         PurchaseCreate ?td,
         PurchaseEnd (test_env ''tx_3'' ''t3'') (JNum (Fin 20)) (Inr (JObj (failure ''rejected'')))]"
  have pl: "\<forall>c \<in> set ?ps. ledger_call c" by simp
  have pc: "created ?ps (rejecting_wallet (Fin 50), ()) =
        [[(''id'', JStr ''tx_1''), (''type'', JStr ''debit''), (''amount'', JNum (Fin 20)),
          (''timestamp'', JStr ''t1''), (''purpose'', JStr ''token_purchase''),
          (''tokenId'', JStr ''tok'')],
         [(''id'', JStr ''tx_2''), (''type'', JStr ''credit''), (''amount'', JNum (Fin 5)),
          (''timestamp'', JStr ''t2'')],
         [(''id'', JStr ''tx_3''), (''type'', JStr ''credit''), (''amount'', JNum (Fin 20)),
          (''timestamp'', JStr ''t3''), (''purpose'', JStr ''token_purchase_rollback'')]]"
    by (simp add: purchase_begin_def purchase_create_def purchase_end_def created_by_addFunds
        deductFunds_def addFunds_def persist_def notifyListeners_def js_or_def js_lt_def
        rejecting_wallet_def wallet_of_def test_env_def failure_def obj_get_def Let_def
        returned_transaction_def fl_30 fl_35 fl_55)
  have pt: "transactions (fst (wallet_run ?ps (rejecting_wallet (Fin 50), ()))) =
      transactions (rejecting_wallet (Fin 50)) @ created ?ps (rejecting_wallet (Fin 50), ())"
    using pl transactions_append_only
      [of ?ps "(rejecting_wallet (Fin 50), ())" "test_env ''tx_1'' ''t1''" "JNum (Fin 5)" "[]"
          "rejecting_wallet (Fin 50)"]
    by simp
  have pe: "transactions (rejecting_wallet (Fin 50)) = []"
    by (simp add: rejecting_wallet_def wallet_of_def)
  let ?cs = "[AddFunds (test_env ''tx_1'' ''t1'') (JNum (Fin 5)) [(''note'', JStr ''gift'')],
              DeductFunds (test_env ''tx_2'' ''t2'') (JNum (Fin 20)) [],
              DeductFunds (test_env ''tx_3'' ''t3'') (JNum (Fin 2)) []]"
  let ?init = "(wallet_of (Fin 10))\<lparr>transactions := [[(''id'', JStr ''old'')]]\<rparr>"
  let ?w = "(wallet_of (Fin 1))\<lparr>transactions := [[(''id'', JStr ''old'')]]\<rparr>"
  have l: "\<forall>c \<in> set ?cs. ledger_call c" by simp
  have c: "created ?cs (?init, ()) =
        [[(''id'', JStr ''tx_1''), (''type'', JStr ''credit''), (''amount'', JNum (Fin 5)),
          (''timestamp'', JStr ''t1''), (''note'', JStr ''gift'')],
         [(''id'', JStr ''tx_3''), (''type'', JStr ''debit''), (''amount'', JNum (Fin 2)),
          (''timestamp'', JStr ''t3'')]]"
    by (simp add: created_by_addFunds created_by_deductFunds balance_addFunds balance_deductFunds
        wallet_of_def test_env_def fl_15)
  have a: "truthy (obj_get (fst (addFunds (test_env ''tx_1'' ''t1'') (JNum (Fin 5)) [(''note'', JStr ''gift'')] ?w))
             ''success'')"
    by (simp add: addFunds_fst obj_get_def)
  have d: "\<not> truthy (obj_get (fst (deductFunds (test_env ''tx_1'' ''t1'') (JNum (Fin 5)) [(''note'', JStr ''gift'')] ?w))
             ''success'')"
    by (simp add: deductFunds_fst obj_get_def failure_def wallet_of_def)
  from l c a d transactions_append_only
    [of ?cs "(?init, ())" "test_env ''tx_1'' ''t1''" "JNum (Fin 5)" "[(''note'', JStr ''gift'')]" ?w]
  have "ledger_call (AddFunds (test_env ''tx_1'' ''t1'') (JNum (Fin 5)) [(''note'', JStr ''gift'')])
   \<and> ledger_call (DeductFunds (test_env ''tx_2'' ''t2'') (JNum (Fin 20)) [])
   \<and> ledger_call (DeductFunds (test_env ''tx_3'' ''t3'') (JNum (Fin 2)) [])
   \<and> transactions (fst (wallet_run ?cs (?init, ())))
      = [[(''id'', JStr ''old'')],
         [(''id'', JStr ''tx_1''), (''type'', JStr ''credit''), (''amount'', JNum (Fin 5)),
          (''timestamp'', JStr ''t1''), (''note'', JStr ''gift'')],
         [(''id'', JStr ''tx_3''), (''type'', JStr ''debit''), (''amount'', JNum (Fin 2)),
          (''timestamp'', JStr ''t3'')]]
   \<and> truthy (obj_get (fst (addFunds (test_env ''tx_1'' ''t1'') (JNum (Fin 5)) [(''note'', JStr ''gift'')] ?w)) ''success'')
   \<and> (\<exists>t. obj_get (fst (addFunds (test_env ''tx_1'' ''t1'') (JNum (Fin 5)) [(''note'', JStr ''gift'')] ?w)) ''transaction'' = JObj t
        \<and> transactions (snd (addFunds (test_env ''tx_1'' ''t1'') (JNum (Fin 5)) [(''note'', JStr ''gift'')] ?w)) = [[(''id'', JStr ''old'')], t])
   \<and> \<not> truthy (obj_get (fst (deductFunds (test_env ''tx_1'' ''t1'') (JNum (Fin 5)) [(''note'', JStr ''gift'')] ?w)) ''success'')
   \<and> transactions (snd (deductFunds (test_env ''tx_1'' ''t1'') (JNum (Fin 5)) [(''note'', JStr ''gift'')] ?w)) = [[(''id'', JStr ''old'')]]"
    by (auto simp: wallet_of_def)
  with pt pc pe show ?thesis by simp
qed

text \<open>
  The claim C8 as it is written fails: \<open>initialize\<close> replaces the list by the stored
  one, and \<open>_persist\<close> swallows a failed write. On a wallet with a store, a first
  \<open>addFunds\<close> is stored; a second one is not (the store refuses the write), though it
  succeeds and appends its transaction; \<open>initialize\<close> then removes that transaction.
\<close>

theorem transactions_append_only_counterexample:
  "transactions (fst (wallet_run
       [AddFunds (test_env ''tx_1'' ''t1'') (JNum (Fin 5)) [],
        AddFunds (full_env ''tx_2'' ''t2'') (JNum (Fin 15)) []] (stored_wallet (Fin 0), ())))
     = [[(''id'', JStr ''tx_1''), (''type'', JStr ''credit''), (''amount'', JNum (Fin 5)),
         (''timestamp'', JStr ''t1'')],
        [(''id'', JStr ''tx_2''), (''type'', JStr ''credit''), (''amount'', JNum (Fin 15)),
         (''timestamp'', JStr ''t2'')]]
   \<and> obj_get (fst (addFunds (full_env ''tx_2'' ''t2'') (JNum (Fin 15)) []
        (fst (wallet_run [AddFunds (test_env ''tx_1'' ''t1'') (JNum (Fin 5)) []]
           (stored_wallet (Fin 0), ()))))) ''success'' = JBool True
   \<and> transactions (fst (wallet_run
       [AddFunds (test_env ''tx_1'' ''t1'') (JNum (Fin 5)) [],
        AddFunds (full_env ''tx_2'' ''t2'') (JNum (Fin 15)) [],
        InitializeWallet (test_env ''tx_3'' ''t3'')] (stored_wallet (Fin 0), ())))
     = [[(''id'', JStr ''tx_1''), (''type'', JStr ''credit''), (''amount'', JNum (Fin 5)),
         (''timestamp'', JStr ''t1'')]]"
  by (simp add: addFunds_def persist_def notifyListeners_def initialize_wallet_def
      stored_wallet_def wallet_of_def test_env_def full_env_def json_obj_def obj_get_def Let_def
      fl_5 fl_20)

text \<open>
  C9, as the code has it. When no direct \<open>addFunds\<close> or \<open>deductFunds\<close> call of a run
  of ledger calls passes metadata that names \<open>type\<close> or \<open>amount\<close>, the balance after
  the run is the balance before it with the amounts of the transactions appended by the
  run added (\<open>credit\<close>) and subtracted (\<open>debit\<close>) in list order, each result rounded to
  a double. When none of these steps rounds, it is the balance before the run, plus the
  sum of the appended \<open>credit\<close> amounts, minus the sum of the appended \<open>debit\<close>
  amounts.
\<close>

theorem ledger_balance:
  assumes "\<forall>c \<in> set cs. ledger_call c \<and> plain_metadata c"
  shows "balance (fst (wallet_run cs (w, ts))) =
           replay (balance w)
             (drop (length (transactions w)) (transactions (fst (wallet_run cs (w, ts)))))
         \<and> (\<forall>b. balance w = Fin b \<and>
                 exact_replay b
                   (drop (length (transactions w)) (transactions (fst (wallet_run cs (w, ts)))))
              \<longrightarrow> balance (fst (wallet_run cs (w, ts))) =
                    Fin (b
                    + credits (drop (length (transactions w)) (transactions (fst (wallet_run cs (w, ts)))))
                    - debits (drop (length (transactions w)) (transactions (fst (wallet_run cs (w, ts)))))))"
proof -
  from assms have l: "\<forall>c \<in> set cs. ledger_call c" by simp
  have new: "drop (length (transactions w)) (transactions (fst (wallet_run cs (w, ts))))
               = created cs (w, ts)"
    using wallet_run_created [OF l, of "(w, ts)"] by simp
  have r: "balance (fst (wallet_run cs (w, ts))) = replay (balance w) (created cs (w, ts))"
    using wallet_run_replay [OF assms, of "(w, ts)"] by simp
  show ?thesis unfolding new using r by (auto simp: replay_exact)
qed

theorem ledger_balance_witness:
  "ledger_call (AddFunds (test_env ''tx_1'' ''t1'') (JNum (Fin 5)) [(''note'', JStr ''gift'')])
   \<and> plain_metadata (AddFunds (test_env ''tx_1'' ''t1'') (JNum (Fin 5)) [(''note'', JStr ''gift'')])
   \<and> ledger_call (DeductFunds (test_env ''tx_2'' ''t2'') (JNum (Fin 2)) [])
   \<and> plain_metadata (DeductFunds (test_env ''tx_2'' ''t2'') (JNum (Fin 2)) [])
   \<and> balance (wallet_of (Fin 10)) = Fin 10
   \<and> exact_replay 10 (drop (length (transactions (wallet_of (Fin 10))))
        (transactions (fst (wallet_run
          [AddFunds (test_env ''tx_1'' ''t1'') (JNum (Fin 5)) [(''note'', JStr ''gift'')],
           DeductFunds (test_env ''tx_2'' ''t2'') (JNum (Fin 2)) []] (wallet_of (Fin 10), ())))))
   \<and> credits (drop (length (transactions (wallet_of (Fin 10))))
        (transactions (fst (wallet_run
          [AddFunds (test_env ''tx_1'' ''t1'') (JNum (Fin 5)) [(''note'', JStr ''gift'')],
           DeductFunds (test_env ''tx_2'' ''t2'') (JNum (Fin 2)) []] (wallet_of (Fin 10), ()))))) = 5
   \<and> debits (drop (length (transactions (wallet_of (Fin 10))))
        (transactions (fst (wallet_run
          [AddFunds (test_env ''tx_1'' ''t1'') (JNum (Fin 5)) [(''note'', JStr ''gift'')],
           DeductFunds (test_env ''tx_2'' ''t2'') (JNum (Fin 2)) []] (wallet_of (Fin 10), ()))))) = 2
   \<and> balance (fst (wallet_run
          [AddFunds (test_env ''tx_1'' ''t1'') (JNum (Fin 5)) [(''note'', JStr ''gift'')],
           DeductFunds (test_env ''tx_2'' ''t2'') (JNum (Fin 2)) []] (wallet_of (Fin 10), ())))
       = Fin (10 + 5 - 2)"
proof -
  let ?cs = "[AddFunds (test_env ''tx_1'' ''t1'') (JNum (Fin 5)) [(''note'', JStr ''gift'')],
              DeductFunds (test_env ''tx_2'' ''t2'') (JNum (Fin 2)) []]"
  let ?new = "drop (length (transactions (wallet_of (Fin 10))))
        (transactions (fst (wallet_run ?cs (wallet_of (Fin 10), ()))))"
  have h: "\<forall>c \<in> set ?cs. ledger_call c \<and> plain_metadata c" by simp
  have n: "?new =
        [[(''id'', JStr ''tx_1''), (''type'', JStr ''credit''), (''amount'', JNum (Fin 5)),
          (''timestamp'', JStr ''t1''), (''note'', JStr ''gift'')],
         [(''id'', JStr ''tx_2''), (''type'', JStr ''debit''), (''amount'', JNum (Fin 2)),
          (''timestamp'', JStr ''t2'')]]"
    by (simp add: transactions_addFunds transactions_deductFunds balance_addFunds
        wallet_of_def test_env_def fl_15)
  have b: "balance (wallet_of (Fin 10)) = Fin 10" by (simp add: wallet_of_def)
  have e: "exact_replay 10 ?new"
    unfolding n by (simp add: obj_get_def tx_num_def tx_amount_def fl_15 fl_13)
  have c: "credits ?new = 5" "debits ?new = 2"
    unfolding n by (simp_all add: credits_def debits_def obj_get_def tx_num_def tx_amount_def)
  from ledger_balance [OF h, of "wallet_of (Fin 10)" "()"] b e
  have "balance (fst (wallet_run ?cs (wallet_of (Fin 10), ()))) = Fin (10 + credits ?new - debits ?new)"
    by blast
  then have "balance (fst (wallet_run ?cs (wallet_of (Fin 10), ()))) = Fin (10 + 5 - 2)"
    unfolding c .
  with h b e c show ?thesis by simp
qed

text \<open>
  The claim C9 as it is written fails, in two ways. The transaction literal spreads the
  caller's metadata after its own fields, so \<open>addFunds(5, {amount: 100})\<close> on an empty
  wallet gives the balance 5 and a \<open>credit\<close> transaction whose amount is 100. And the
  balance is rounded at every step: \<open>addFunds(0.2)\<close>, \<open>deductFunds(0.1)\<close>,
  \<open>addFunds(1.1)\<close> on an empty wallet give the balance \<open>1.2000000000000002\<close>, which is
  neither the sum of the credits minus the debit as real numbers nor that sum as a
  program adds it up in doubles (\<open>1.2\<close>).
\<close>

theorem ledger_balance_counterexample:
  "balance (fst (wallet_run
       [AddFunds (test_env ''tx_1'' ''t1'') (JNum (Fin 5)) [(''amount'', JNum (Fin 100))]]
       (wallet_of (Fin 0), ()))) = Fin 5
   \<and> credits (drop (length (transactions (wallet_of (Fin 0)))) (transactions (fst (wallet_run
       [AddFunds (test_env ''tx_1'' ''t1'') (JNum (Fin 5)) [(''amount'', JNum (Fin 100))]]
       (wallet_of (Fin 0), ()))))) = 100
   \<and> debits (drop (length (transactions (wallet_of (Fin 0)))) (transactions (fst (wallet_run
       [AddFunds (test_env ''tx_1'' ''t1'') (JNum (Fin 5)) [(''amount'', JNum (Fin 100))]]
       (wallet_of (Fin 0), ()))))) = 0
   \<and> balance (fst (wallet_run
       [AddFunds (test_env ''tx_1'' ''t1'') (JNum (Fin d0_2)) [],
        DeductFunds (test_env ''tx_2'' ''t2'') (JNum (Fin d0_1)) [],
        AddFunds (test_env ''tx_3'' ''t3'') (JNum (Fin d1_1)) []]
       (wallet_of (Fin 0), ()))) = Fin d1_2_up
   \<and> credits (drop (length (transactions (wallet_of (Fin 0)))) (transactions (fst (wallet_run
       [AddFunds (test_env ''tx_1'' ''t1'') (JNum (Fin d0_2)) [],
        DeductFunds (test_env ''tx_2'' ''t2'') (JNum (Fin d0_1)) [],
        AddFunds (test_env ''tx_3'' ''t3'') (JNum (Fin d1_1)) []]
       (wallet_of (Fin 0), ()))))) = d0_2 + d1_1
   \<and> debits (drop (length (transactions (wallet_of (Fin 0)))) (transactions (fst (wallet_run
       [AddFunds (test_env ''tx_1'' ''t1'') (JNum (Fin d0_2)) [],
        DeductFunds (test_env ''tx_2'' ''t2'') (JNum (Fin d0_1)) [],
        AddFunds (test_env ''tx_3'' ''t3'') (JNum (Fin d1_1)) []]
       (wallet_of (Fin 0), ()))))) = d0_1
   \<and> d1_2_up \<noteq> 0 + (d0_2 + d1_1) - d0_1
   \<and> num_sub (num_add (Fin 0)
        (credits_fl (drop (length (transactions (wallet_of (Fin 0)))) (transactions (fst (wallet_run
          [AddFunds (test_env ''tx_1'' ''t1'') (JNum (Fin d0_2)) [],
           DeductFunds (test_env ''tx_2'' ''t2'') (JNum (Fin d0_1)) [],
           AddFunds (test_env ''tx_3'' ''t3'') (JNum (Fin d1_1)) []]
          (wallet_of (Fin 0), ())))))))
        (debits_fl (drop (length (transactions (wallet_of (Fin 0)))) (transactions (fst (wallet_run
          [AddFunds (test_env ''tx_1'' ''t1'') (JNum (Fin d0_2)) [],
           DeductFunds (test_env ''tx_2'' ''t2'') (JNum (Fin d0_1)) [],
           AddFunds (test_env ''tx_3'' ''t3'') (JNum (Fin d1_1)) []]
          (wallet_of (Fin 0), ()))))))
      = Fin d1_2
   \<and> d1_2_up \<noteq> d1_2"
proof -
  have pos: "0 < d0_1" "0 < d0_2" "0 < d1_1" "d0_1 \<le> d0_2"
    by (simp_all add: d0_1_def d0_2_def d1_1_def)
  have ne: "d1_2_up \<noteq> 0 + (d0_2 + d1_1) - d0_1" "d1_2_up \<noteq> d1_2"
    by (simp_all add: d0_1_def d0_2_def d1_1_def d1_2_def d1_2_up_def)
  let ?cs = "[AddFunds (test_env ''tx_1'' ''t1'') (JNum (Fin d0_2)) [],
        DeductFunds (test_env ''tx_2'' ''t2'') (JNum (Fin d0_1)) [],
        AddFunds (test_env ''tx_3'' ''t3'') (JNum (Fin d1_1)) []]"
  have n: "drop (length (transactions (wallet_of (Fin 0)))) (transactions (fst (wallet_run ?cs
             (wallet_of (Fin 0), ())))) =
        [[(''id'', JStr ''tx_1''), (''type'', JStr ''credit''), (''amount'', JNum (Fin d0_2)),
          (''timestamp'', JStr ''t1'')],
         [(''id'', JStr ''tx_2''), (''type'', JStr ''debit''), (''amount'', JNum (Fin d0_1)),
          (''timestamp'', JStr ''t2'')],
         [(''id'', JStr ''tx_3''), (''type'', JStr ''credit''), (''amount'', JNum (Fin d1_1)),
          (''timestamp'', JStr ''t3'')]]"
    using pos
    by (simp add: transactions_addFunds transactions_deductFunds balance_addFunds
        balance_deductFunds wallet_of_def test_env_def fl_d0_2 fl_d0_2_minus_d0_1)
  have b: "balance (fst (wallet_run ?cs (wallet_of (Fin 0), ()))) = Fin d1_2_up"
    using pos
    by (simp add: balance_addFunds balance_deductFunds wallet_of_def fl_d0_2 fl_d0_2_minus_d0_1
        fl_d0_1_plus_d1_1)
  have c: "credits [[(''id'', JStr ''tx_1''), (''type'', JStr ''credit''), (''amount'', JNum (Fin d0_2)),
          (''timestamp'', JStr ''t1'')],
         [(''id'', JStr ''tx_2''), (''type'', JStr ''debit''), (''amount'', JNum (Fin d0_1)),
          (''timestamp'', JStr ''t2'')],
         [(''id'', JStr ''tx_3''), (''type'', JStr ''credit''), (''amount'', JNum (Fin d1_1)),
          (''timestamp'', JStr ''t3'')]] = d0_2 + d1_1"
     "debits [[(''id'', JStr ''tx_1''), (''type'', JStr ''credit''), (''amount'', JNum (Fin d0_2)),
          (''timestamp'', JStr ''t1'')],
         [(''id'', JStr ''tx_2''), (''type'', JStr ''debit''), (''amount'', JNum (Fin d0_1)),
          (''timestamp'', JStr ''t2'')],
         [(''id'', JStr ''tx_3''), (''type'', JStr ''credit''), (''amount'', JNum (Fin d1_1)),
          (''timestamp'', JStr ''t3'')]] = d0_1"
    by (simp_all add: credits_def debits_def obj_get_def tx_num_def tx_amount_def)
  have f: "num_sub (num_add (Fin 0)
        (credits_fl [[(''id'', JStr ''tx_1''), (''type'', JStr ''credit''), (''amount'', JNum (Fin d0_2)),
          (''timestamp'', JStr ''t1'')],
         [(''id'', JStr ''tx_2''), (''type'', JStr ''debit''), (''amount'', JNum (Fin d0_1)),
          (''timestamp'', JStr ''t2'')],
         [(''id'', JStr ''tx_3''), (''type'', JStr ''credit''), (''amount'', JNum (Fin d1_1)),
          (''timestamp'', JStr ''t3'')]]))
        (debits_fl [[(''id'', JStr ''tx_1''), (''type'', JStr ''credit''), (''amount'', JNum (Fin d0_2)),
          (''timestamp'', JStr ''t1'')],
         [(''id'', JStr ''tx_2''), (''type'', JStr ''debit''), (''amount'', JNum (Fin d0_1)),
          (''timestamp'', JStr ''t2'')],
         [(''id'', JStr ''tx_3''), (''type'', JStr ''credit''), (''amount'', JNum (Fin d1_1)),
          (''timestamp'', JStr ''t3'')]]) = Fin d1_2"
    by (simp add: credits_fl_def debits_fl_def obj_get_def tx_num_def fl_d0_2 fl_d0_1
        fl_d0_2_plus_d1_1 fl_d1_3 fl_d1_3_minus_d0_1)
  have m: "balance (fst (wallet_run
       [AddFunds (test_env ''tx_1'' ''t1'') (JNum (Fin 5)) [(''amount'', JNum (Fin 100))]]
       (wallet_of (Fin 0), ()))) = Fin 5"
     "credits (drop (length (transactions (wallet_of (Fin 0)))) (transactions (fst (wallet_run
       [AddFunds (test_env ''tx_1'' ''t1'') (JNum (Fin 5)) [(''amount'', JNum (Fin 100))]]
       (wallet_of (Fin 0), ()))))) = 100"
     "debits (drop (length (transactions (wallet_of (Fin 0)))) (transactions (fst (wallet_run
       [AddFunds (test_env ''tx_1'' ''t1'') (JNum (Fin 5)) [(''amount'', JNum (Fin 100))]]
       (wallet_of (Fin 0), ()))))) = 0"
    by (simp_all add: balance_addFunds transactions_addFunds credits_def debits_def tx_amount_def
        tx_num_def obj_get_def wallet_of_def fl_5)
  show ?thesis
    unfolding n c f using m b ne by simp
qed

text \<open>
  C10, as the code has it. With a token service configured, a balance that is not negative
  and a \<open>tokenData\<close> that is an object, a \<open>value\<close> that is absent, 0 or otherwise falsy
  makes \<open>purchaseToken\<close> return the failure \<open>Invalid amount\<close>; the wallet and the token
  service are left as they were, so no token is created.
\<close>

theorem purchaseToken_falsy_value:
  assumes "tokenService w = Some createToken"
    and "\<not> num_lt (balance w) (Fin 0)"
    and "get_prop tokenData ''value'' = Inr v"
    and "\<not> truthy v"
  shows "purchaseToken e1 e2 tokenData meanwhile w ts = (JObj (failure ''Invalid amount''), w, ts)"
proof -
  obtain tokenId where tid: "get_prop tokenData ''id'' = Inr tokenId"
    using get_prop_defined [OF assms(3)] by blast
  have amount: "js_or v (JNum (Fin 0)) = JNum (Fin 0)"
    using assms(4) by (simp add: js_or_def)
  have "\<not> js_lt e1 (balance w) (JNum (Fin 0))"
    using assms(2) by (simp add: js_lt_def)
  then show ?thesis
    by (simp add: purchaseToken_def assms(1,3) amount tid deductFunds_def failure_def obj_get_def)
qed

theorem purchaseToken_falsy_value_witness:
  "purchaseToken (test_env ''tx_1'' ''t1'') (test_env ''tx_2'' ''t2'') (JObj [(''id'', JStr ''tok'')])
      (\<lambda>w. w)
      (\<lparr>storage = None, tokenService = Some (\<lambda>tokenData ts. (Inr (JObj [(''success'', JBool True)]), Suc ts)),
       balance = Fin 50, transactions = [], notified = []\<rparr> :: nat WalletUnified) 0
     = (JObj (failure ''Invalid amount''),
        (\<lparr>storage = None, tokenService = Some (\<lambda>tokenData ts. (Inr (JObj [(''success'', JBool True)]), Suc ts)),
       balance = Fin 50, transactions = [], notified = []\<rparr> :: nat WalletUnified), 0)"
proof -
  have h1: "tokenService (\<lparr>storage = None, tokenService = Some (\<lambda>tokenData ts. (Inr (JObj [(''success'', JBool True)]), Suc ts)),
       balance = Fin 50, transactions = [], notified = []\<rparr> :: nat WalletUnified)
            = Some (\<lambda>tokenData ts. (Inr (JObj [(''success'', JBool True)]), Suc ts))"
    by simp
  have h2: "\<not> num_lt (balance (\<lparr>storage = None, tokenService = Some (\<lambda>tokenData ts. (Inr (JObj [(''success'', JBool True)]), Suc ts)),
       balance = Fin 50, transactions = [], notified = []\<rparr> :: nat WalletUnified)) (Fin 0)"
    by simp
  have h3: "get_prop (JObj [(''id'', JStr ''tok'')]) ''value'' = Inr JUndefined"
    by (simp add: obj_get_def)
  have h4: "\<not> truthy JUndefined" by simp
  from purchaseToken_falsy_value [OF h1 h2 h3 h4] show ?thesis .
qed

text \<open>
  The claim C10 as it is written fails in two ways: "regardless of the current balance"
  and for every call. Without a token service the same call returns
  \<open>Token service not configured\<close>, and on a negative balance it returns
  \<open>Insufficient funds\<close>.
\<close>

theorem purchaseToken_falsy_value_counterexample:
  "fst (purchaseToken (test_env ''tx_1'' ''t1'') (test_env ''tx_2'' ''t2'') (JObj [(''value'', JNum (Fin 0))])
      (\<lambda>w. w) (wallet_of (Fin 50)) ())
     = JObj (failure ''Token service not configured'')
   \<and> fst (purchaseToken (test_env ''tx_1'' ''t1'') (test_env ''tx_2'' ''t2'') (JObj [(''value'', JNum (Fin 0))])
      (\<lambda>w. w) (wallet_of (Fin 50)) ())
     \<noteq> JObj (failure ''Invalid amount'')
   \<and> fst (purchaseToken (test_env ''tx_1'' ''t1'') (test_env ''tx_2'' ''t2'') (JObj [(''value'', JNum (Fin 0))])
      (\<lambda>w. w) (rejecting_wallet (Fin (- 5))) ())
     = JObj (failure ''Insufficient funds'')"
  by (simp add: purchaseToken_def failure_def obj_get_def js_or_def js_lt_def wallet_of_def
      rejecting_wallet_def)

section \<open>Properties of the integration listener\<close>

text \<open>The body of each call, one round of the bound at a time.\<close>

lemma exec_HandleEvent:
  "exec (Suc n) beh (HandleEvent service eventType data i t) s =
     exec n beh ProcessQueue
       (s\<lparr>eventQueue := eventQueue s @ [\<lparr>ev_id = i, ev_service = service, ev_type = eventType,
                                          ev_data = data, ev_timestamp = t\<rparr>],
          trace := trace s @ [Enqueued \<lparr>ev_id = i, ev_service = service, ev_type = eventType,
                                        ev_data = data, ev_timestamp = t\<rparr>]\<rparr>)"
  by (simp add: Let_def)

lemma exec_ProcessQueue:
  "exec (Suc n) beh ProcessQueue s =
     (if isProcessing s \<or> eventQueue s = [] then Some s
      else (case exec n beh QueueLoop (s\<lparr>isProcessing := True\<rparr>) of
              None \<Rightarrow> None
            | Some s' \<Rightarrow> Some (s'\<lparr>isProcessing := False\<rparr>)))"
  by simp

lemma exec_QueueLoop:
  "exec (Suc n) beh QueueLoop s =
     (case eventQueue s of
        [] \<Rightarrow> Some s
      | event # rest \<Rightarrow>
          (case exec n beh (DispatchEvent event) (s\<lparr>eventQueue := rest\<rparr>) of
             None \<Rightarrow> None
           | Some s1 \<Rightarrow>
               (case exec n beh (Await (beh (trace s1) (AwaitDispatch event))) s1 of
                  None \<Rightarrow> None
                | Some s2 \<Rightarrow> exec n beh QueueLoop s2)))"
  by simp

lemma exec_DispatchEvent:
  "exec (Suc n) beh (DispatchEvent event) s =
     exec n beh (ForPatterns (patterns event) event) (s\<lparr>trace := trace s @ [Dispatched event]\<rparr>)"
  by simp

lemma exec_ForPatterns:
  "exec (Suc n) beh (ForPatterns ps event) s =
     (case ps of
        [] \<Rightarrow> Some s
      | pattern # rest \<Rightarrow>
          (case listeners s pattern of
             None \<Rightarrow> exec n beh (ForPatterns rest event) s
           | Some callbacks \<Rightarrow>
               (case exec n beh (ForCallbacks pattern 0 event) s of
                  None \<Rightarrow> None
                | Some s' \<Rightarrow> exec n beh (ForPatterns rest event) s')))"
  by simp

lemma exec_ForCallbacks:
  "exec (Suc n) beh (ForCallbacks pattern i event) s =
     (case listeners s pattern of
        None \<Rightarrow> Some s
      | Some callbacks \<Rightarrow>
          if i < length callbacks then
            (case callbacks ! i of
               None \<Rightarrow> exec n beh (ForCallbacks pattern (Suc i) event) s
             | Some callback \<Rightarrow>
                 (case exec n beh (Await (beh (trace s) (AwaitCallback pattern callback event)))
                         (s\<lparr>trace := trace s @ [Called pattern callback event]\<rparr>) of
                    None \<Rightarrow> None
                  | Some s' \<Rightarrow> exec n beh (ForCallbacks pattern (Suc i) event) s'))
          else Some s)"
  by simp

lemma exec_Await:
  "exec (Suc n) beh (Await acts) s =
     (case acts of
        [] \<Rightarrow> Some s
      | On eventPattern callback # rest \<Rightarrow>
          exec n beh (Await rest) (on eventPattern callback s)
      | Off eventPattern callback # rest \<Rightarrow>
          exec n beh (Await rest) (off eventPattern callback s)
      | Raise service eventType data i t # rest \<Rightarrow>
          (case exec n beh (HandleEvent service eventType data i t) s of
             None \<Rightarrow> None
           | Some s' \<Rightarrow> exec n beh (Await rest) s')
      | Throw # rest \<Rightarrow> exec n beh (Await rest) s
      | Hang # rest \<Rightarrow> None)"
  by simp

declare exec.simps(2) [simp del]

lemmas exec_Suc = exec_HandleEvent exec_ProcessQueue exec_QueueLoop exec_DispatchEvent
  exec_ForPatterns exec_ForCallbacks exec_Await

lemma exec_Suc_mono:
  "exec n beh c s = Some s' \<Longrightarrow> exec (Suc n) beh c s = Some s'"
proof (induction n arbitrary: c s s')
  case 0
  then show ?case by simp
next
  case (Suc n)
  note IH = Suc.IH
  show ?case
  proof (cases c)
    case (HandleEvent service eventType data i t)
    from Suc.prems have "exec n beh ProcessQueue
       (s\<lparr>eventQueue := eventQueue s @ [\<lparr>ev_id = i, ev_service = service, ev_type = eventType,
                                          ev_data = data, ev_timestamp = t\<rparr>],
          trace := trace s @ [Enqueued \<lparr>ev_id = i, ev_service = service, ev_type = eventType,
                                        ev_data = data, ev_timestamp = t\<rparr>]\<rparr>) = Some s'"
      by (simp add: HandleEvent exec_HandleEvent)
    from IH [OF this] show ?thesis
      unfolding HandleEvent by (subst exec_HandleEvent)
  next
    case ProcessQueue
    from Suc.prems have "(if isProcessing s \<or> eventQueue s = [] then Some s
      else (case exec n beh QueueLoop (s\<lparr>isProcessing := True\<rparr>) of
              None \<Rightarrow> None
            | Some s' \<Rightarrow> Some (s'\<lparr>isProcessing := False\<rparr>))) = Some s'"
      by (simp add: ProcessQueue exec_ProcessQueue)
    then show ?thesis
      unfolding ProcessQueue using IH
      by (subst exec_ProcessQueue) (auto split: if_splits option.splits)
  next
    case QueueLoop
    from Suc.prems have "(case eventQueue s of
        [] \<Rightarrow> Some s
      | event # rest \<Rightarrow>
          (case exec n beh (DispatchEvent event) (s\<lparr>eventQueue := rest\<rparr>) of
             None \<Rightarrow> None
           | Some s1 \<Rightarrow>
               (case exec n beh (Await (beh (trace s1) (AwaitDispatch event))) s1 of
                  None \<Rightarrow> None
                | Some s2 \<Rightarrow> exec n beh QueueLoop s2))) = Some s'"
      by (simp add: QueueLoop exec_QueueLoop)
    then show ?thesis
      unfolding QueueLoop using IH
      by (subst exec_QueueLoop) (auto split: list.splits option.splits)
  next
    case (DispatchEvent event)
    from Suc.prems have "exec n beh (ForPatterns (patterns event) event)
        (s\<lparr>trace := trace s @ [Dispatched event]\<rparr>) = Some s'"
      by (simp add: DispatchEvent exec_DispatchEvent)
    from IH [OF this] show ?thesis
      unfolding DispatchEvent by (subst exec_DispatchEvent)
  next
    case (ForPatterns ps event)
    from Suc.prems have "(case ps of
        [] \<Rightarrow> Some s
      | pattern # rest \<Rightarrow>
          (case listeners s pattern of
             None \<Rightarrow> exec n beh (ForPatterns rest event) s
           | Some callbacks \<Rightarrow>
               (case exec n beh (ForCallbacks pattern 0 event) s of
                  None \<Rightarrow> None
                | Some s' \<Rightarrow> exec n beh (ForPatterns rest event) s'))) = Some s'"
      by (simp add: ForPatterns exec_ForPatterns)
    then show ?thesis
      unfolding ForPatterns using IH
      by (subst exec_ForPatterns) (auto split: list.splits option.splits)
  next
    case (ForCallbacks pattern i event)
    from Suc.prems have "(case listeners s pattern of
        None \<Rightarrow> Some s
      | Some callbacks \<Rightarrow>
          if i < length callbacks then
            (case callbacks ! i of
               None \<Rightarrow> exec n beh (ForCallbacks pattern (Suc i) event) s
             | Some callback \<Rightarrow>
                 (case exec n beh (Await (beh (trace s) (AwaitCallback pattern callback event)))
                         (s\<lparr>trace := trace s @ [Called pattern callback event]\<rparr>) of
                    None \<Rightarrow> None
                  | Some s' \<Rightarrow> exec n beh (ForCallbacks pattern (Suc i) event) s'))
          else Some s) = Some s'"
      by (simp add: ForCallbacks exec_ForCallbacks)
    then show ?thesis
      unfolding ForCallbacks using IH
      by (subst exec_ForCallbacks) (auto split: if_splits option.splits)
  next
    case (Await acts)
    from Suc.prems have "(case acts of
        [] \<Rightarrow> Some s
      | On eventPattern callback # rest \<Rightarrow>
          exec n beh (Await rest) (on eventPattern callback s)
      | Off eventPattern callback # rest \<Rightarrow>
          exec n beh (Await rest) (off eventPattern callback s)
      | Raise service eventType data i t # rest \<Rightarrow>
          (case exec n beh (HandleEvent service eventType data i t) s of
             None \<Rightarrow> None
           | Some s' \<Rightarrow> exec n beh (Await rest) s')
      | Throw # rest \<Rightarrow> exec n beh (Await rest) s
      | Hang # rest \<Rightarrow> None) = Some s'"
      by (simp add: Await exec_Await)
    then show ?thesis
      unfolding Await using IH
      by (subst exec_Await) (auto split: list.splits action.splits option.splits)
  qed
qed

lemma exec_mono:
  "exec n beh c s = Some s' \<Longrightarrow> n \<le> m \<Longrightarrow> exec m beh c s = Some s'"
  by (induction m) (auto simp: le_Suc_eq exec_Suc_mono simp del: exec.simps)


lemma enqueued_append [simp]: "enqueued (xs @ ys) = enqueued xs @ enqueued ys"
  by (induction xs rule: enqueued.induct) simp_all

lemma dispatched_append [simp]: "dispatched (xs @ ys) = dispatched xs @ dispatched ys"
  by (induction xs rule: dispatched.induct) simp_all

lemma calls_append [simp]: "calls (xs @ ys) = calls xs @ calls ys"
  by (induction xs rule: calls.induct) simp_all

lemma on_fields [simp]:
  "trace (on p c s) = trace s" "eventQueue (on p c s) = eventQueue s"
  "isProcessing (on p c s) = isProcessing s"
  by (simp_all add: on_def)

lemma off_fields [simp]:
  "trace (off p c s) = trace s" "eventQueue (off p c s) = eventQueue s"
  "isProcessing (off p c s) = isProcessing s"
  by (simp_all add: off_def split: option.splits)

lemma fifo_on [simp]: "fifo (on p c s) = fifo s" and fifo_off [simp]: "fifo (off p c s) = fifo s"
  by (simp_all add: fifo_def)

lemma fifo_flag [simp]: "fifo (s\<lparr>isProcessing := b\<rparr>) = fifo s"
  by (simp add: fifo_def)


lemma exec_ProcessQueue_cases:
  assumes "exec (Suc n) beh ProcessQueue s = Some s'"
  obtains (idle) "isProcessing s \<or> eventQueue s = []" "s' = s"
  | (batch) s1 where "\<not> isProcessing s" "eventQueue s \<noteq> []"
      "exec n beh QueueLoop (s\<lparr>isProcessing := True\<rparr>) = Some s1"
      "s' = s1\<lparr>isProcessing := False\<rparr>"
  using assms by (auto simp add: exec_ProcessQueue split: if_splits option.splits)

lemma exec_QueueLoop_cases:
  assumes "exec (Suc n) beh QueueLoop s = Some s'"
  obtains (drained) "eventQueue s = []" "s' = s"
  | (shift) event rest s1 s2 where "eventQueue s = event # rest"
      "exec n beh (DispatchEvent event) (s\<lparr>eventQueue := rest\<rparr>) = Some s1"
      "exec n beh (Await (beh (trace s1) (AwaitDispatch event))) s1 = Some s2"
      "exec n beh QueueLoop s2 = Some s'"
  using assms by (auto simp add: exec_QueueLoop split: list.splits option.splits)

lemma exec_ForPatterns_cases:
  assumes "exec (Suc n) beh (ForPatterns ps event) s = Some s'"
  obtains (nil) "ps = []" "s' = s"
  | (skip) pattern rest where "ps = pattern # rest" "listeners s pattern = None"
      "exec n beh (ForPatterns rest event) s = Some s'"
  | (visit) pattern rest callbacks s1 where "ps = pattern # rest"
      "listeners s pattern = Some callbacks"
      "exec n beh (ForCallbacks pattern 0 event) s = Some s1"
      "exec n beh (ForPatterns rest event) s1 = Some s'"
  using assms by (auto simp add: exec_ForPatterns split: list.splits option.splits)

lemma exec_ForCallbacks_cases:
  assumes "exec (Suc n) beh (ForCallbacks pattern i event) s = Some s'"
  obtains (unset) "listeners s pattern = None" "s' = s"
  | (finished) callbacks where "listeners s pattern = Some callbacks"
      "\<not> i < length callbacks" "s' = s"
  | (vacant) callbacks where "listeners s pattern = Some callbacks" "i < length callbacks"
      "callbacks ! i = None" "exec n beh (ForCallbacks pattern (Suc i) event) s = Some s'"
  | (invoke) callbacks callback s1 where "listeners s pattern = Some callbacks"
      "i < length callbacks" "callbacks ! i = Some callback"
      "exec n beh (Await (beh (trace s) (AwaitCallback pattern callback event)))
         (s\<lparr>trace := trace s @ [Called pattern callback event]\<rparr>) = Some s1"
      "exec n beh (ForCallbacks pattern (Suc i) event) s1 = Some s'"
  using assms by (auto simp add: exec_ForCallbacks split: if_splits option.splits)

lemma exec_Await_cases:
  assumes "exec (Suc n) beh (Await acts) s = Some s'"
  obtains (returned) "acts = []" "s' = s"
  | (registers) eventPattern callback rest where "acts = On eventPattern callback # rest"
      "exec n beh (Await rest) (on eventPattern callback s) = Some s'"
  | (unregisters) eventPattern callback rest where "acts = Off eventPattern callback # rest"
      "exec n beh (Await rest) (off eventPattern callback s) = Some s'"
  | (raises) service eventType data i t rest s1 where
      "acts = Raise service eventType data i t # rest"
      "exec n beh (HandleEvent service eventType data i t) s = Some s1"
      "exec n beh (Await rest) s1 = Some s'"
  | (throws) rest where "acts = Throw # rest" "exec n beh (Await rest) s = Some s'"
  using assms
  by (auto simp add: exec_Await split: list.splits action.splits option.splits)



text \<open>What a call made while a batch is in progress can do.\<close>

lemma exec_inside_batch:
  "exec n beh c s = Some s' \<Longrightarrow> isProcessing s \<Longrightarrow>
   (case c of HandleEvent a b d i t \<Rightarrow> True | ProcessQueue \<Rightarrow> True | Await acts \<Rightarrow> True
    | _ \<Rightarrow> False) \<Longrightarrow>
   isProcessing s' \<and> dispatched (trace s') = dispatched (trace s) \<and>
   calls (trace s') = calls (trace s) \<and>
   (\<exists>raised. eventQueue s' = eventQueue s @ raised \<and>
              enqueued (trace s') = enqueued (trace s) @ raised)"
proof (induction n arbitrary: c s s')
  case 0
  then show ?case by simp
next
  case (Suc n)
  note IH = Suc.IH
  note flag = Suc.prems(2)
  show ?case
  proof (cases c)
    case (HandleEvent service eventType data i t)
    let ?ev = "\<lparr>ev_id = i, ev_service = service, ev_type = eventType,
                ev_data = data, ev_timestamp = t\<rparr>"
    let ?s1 = "s\<lparr>eventQueue := eventQueue s @ [?ev], trace := trace s @ [Enqueued ?ev]\<rparr>"
    from Suc.prems(1) have run: "exec n beh ProcessQueue ?s1 = Some s'"
      by (simp add: HandleEvent exec_HandleEvent)
    from IH [OF run] flag show ?thesis by auto
  next
    case ProcessQueue
    from Suc.prems(1) have "exec (Suc n) beh ProcessQueue s = Some s'" by (simp add: ProcessQueue)
    then show ?thesis
    proof (cases rule: exec_ProcessQueue_cases)
      case idle
      with flag show ?thesis by simp
    next
      case (batch s1)
      with flag show ?thesis by simp
    qed
  next
    case (Await acts)
    from Suc.prems(1) have "exec (Suc n) beh (Await acts) s = Some s'"
      by (simp add: Await)
    then show ?thesis
    proof (cases rule: exec_Await_cases)
      case returned
      with flag show ?thesis by simp
    next
      case (registers eventPattern callback rest)
      from IH [OF registers(2)] flag show ?thesis by simp
    next
      case (unregisters eventPattern callback rest)
      from IH [OF unregisters(2)] flag show ?thesis by simp
    next
      case (raises service eventType data i t rest s1)
      from IH [OF raises(2)] flag
      have 1: "isProcessing s1" "dispatched (trace s1) = dispatched (trace s)"
        "calls (trace s1) = calls (trace s)"
        and "\<exists>raised. eventQueue s1 = eventQueue s @ raised \<and>
               enqueued (trace s1) = enqueued (trace s) @ raised"
        by simp_all
      then obtain r1 where r1: "eventQueue s1 = eventQueue s @ r1"
        "enqueued (trace s1) = enqueued (trace s) @ r1" by blast
      from IH [OF raises(3)] 1(1)
      have 2: "isProcessing s'" "dispatched (trace s') = dispatched (trace s1)"
        "calls (trace s') = calls (trace s1)"
        and "\<exists>raised. eventQueue s' = eventQueue s1 @ raised \<and>
               enqueued (trace s') = enqueued (trace s1) @ raised"
        by simp_all
      then obtain r2 where r2: "eventQueue s' = eventQueue s1 @ r2"
        "enqueued (trace s') = enqueued (trace s1) @ r2" by blast
      from r1 r2 have "eventQueue s' = eventQueue s @ (r1 @ r2) \<and>
          enqueued (trace s') = enqueued (trace s) @ (r1 @ r2)" by simp
      with 1 2 show ?thesis by metis
    next
      case (throws rest)
      from IH [OF throws(2)] flag show ?thesis by simp
    qed
  qed (use Suc.prems(3) in simp_all)
qed

lemma exec_quiet:
  "exec n beh c s = Some s' \<Longrightarrow> isProcessing s \<Longrightarrow>
   (case c of HandleEvent a b d i t \<Rightarrow> True | ProcessQueue \<Rightarrow> True
    | Await acts \<Rightarrow> \<forall>a \<in> set acts. \<not> changes_listeners a
    | _ \<Rightarrow> False) \<Longrightarrow>
   listeners s' = listeners s"
proof (induction n arbitrary: c s s')
  case 0
  then show ?case by simp
next
  case (Suc n)
  note IH = Suc.IH
  note flag = Suc.prems(2)
  show ?case
  proof (cases c)
    case (HandleEvent service eventType data i t)
    let ?ev = "\<lparr>ev_id = i, ev_service = service, ev_type = eventType,
                ev_data = data, ev_timestamp = t\<rparr>"
    let ?s1 = "s\<lparr>eventQueue := eventQueue s @ [?ev], trace := trace s @ [Enqueued ?ev]\<rparr>"
    from Suc.prems(1) have run: "exec n beh ProcessQueue ?s1 = Some s'"
      by (simp add: HandleEvent exec_HandleEvent)
    from IH [OF run] flag show ?thesis by simp
  next
    case ProcessQueue
    from Suc.prems(1) have "exec (Suc n) beh ProcessQueue s = Some s'" by (simp add: ProcessQueue)
    then show ?thesis
    proof (cases rule: exec_ProcessQueue_cases)
      case idle
      then show ?thesis by simp
    next
      case (batch s1)
      with flag show ?thesis by simp
    qed
  next
    case (Await acts)
    from Suc.prems(3) have q: "\<forall>a \<in> set acts. \<not> changes_listeners a" by (simp add: Await)
    from Suc.prems(1) have "exec (Suc n) beh (Await acts) s = Some s'"
      by (simp add: Await)
    then show ?thesis
    proof (cases rule: exec_Await_cases)
      case returned
      then show ?thesis by simp
    next
      case (registers eventPattern callback rest)
      with q show ?thesis by simp
    next
      case (unregisters eventPattern callback rest)
      with q show ?thesis by simp
    next
      case (raises service eventType data i t rest s1)
      from IH [OF raises(2)] flag have l1: "listeners s1 = listeners s" by simp
      from exec_inside_batch [OF raises(2) flag] have "isProcessing s1" by simp
      with IH [OF raises(3)] q raises(1) have "listeners s' = listeners s1" by simp
      with l1 show ?thesis by simp
    next
      case (throws rest)
      from IH [OF throws(2)] flag q throws(1) show ?thesis by simp
    qed
  qed (use Suc.prems(3) in simp_all)
qed

lemma handleEvent_inside_batch:
  assumes "isProcessing s"
  shows "exec (Suc (Suc n)) beh (HandleEvent service eventType data i t) s =
     Some (s\<lparr>eventQueue := eventQueue s @ [\<lparr>ev_id = i, ev_service = service, ev_type = eventType,
                                          ev_data = data, ev_timestamp = t\<rparr>],
          trace := trace s @ [Enqueued \<lparr>ev_id = i, ev_service = service, ev_type = eventType,
                                        ev_data = data, ev_timestamp = t\<rparr>]\<rparr>)"
  using assms by (simp add: exec_HandleEvent exec_ProcessQueue)

lemma await_total:
  "isProcessing s \<Longrightarrow> Hang \<notin> set acts \<Longrightarrow>
   \<exists>s'. exec (Suc (Suc (Suc (length acts)))) beh (Await acts) s = Some s'"
proof (induction acts arbitrary: s)
  case Nil
  then show ?case by (simp add: exec_Await)
next
  case (Cons a acts)
  from Cons.prems(2) have nh: "Hang \<notin> set acts" by simp
  show ?case
  proof (cases a)
    case (On p c)
    from Cons.IH [of "on p c s"] Cons.prems(1) nh show ?thesis
      by (subst exec_Await) (simp add: On)
  next
    case (Off p c)
    from Cons.IH [of "off p c s"] Cons.prems(1) nh show ?thesis
      by (subst exec_Await) (simp add: Off)
  next
    case (Raise service eventType data i t)
    let ?s1 = "s\<lparr>eventQueue := eventQueue s @ [\<lparr>ev_id = i, ev_service = service, ev_type = eventType,
                                          ev_data = data, ev_timestamp = t\<rparr>],
          trace := trace s @ [Enqueued \<lparr>ev_id = i, ev_service = service, ev_type = eventType,
                                        ev_data = data, ev_timestamp = t\<rparr>]\<rparr>"
    have h: "exec (Suc (Suc (Suc (length acts)))) beh (HandleEvent service eventType data i t) s
               = Some ?s1"
      using Cons.prems(1) by (rule handleEvent_inside_batch)
    from Cons.prems(1) have "isProcessing ?s1" by simp
    from Cons.IH [OF this nh] h show ?thesis
      by (subst exec_Await) (simp add: Raise)
  next
    case Throw
    from Cons.IH [OF Cons.prems(1) nh] show ?thesis
      by (subst exec_Await) (simp add: Throw)
  next
    case Hang
    with Cons.prems(2) show ?thesis by simp
  qed
qed





lemma live_append [simp]: "live (xs @ ys) = live xs @ live ys"
  by (induction xs rule: live.induct) simp_all

lemma forCallbacks_quiet:
  assumes quiet: "\<forall>tr p c. \<forall>a \<in> set (beh tr (AwaitCallback p c ev)). quiet a"
  shows "isProcessing s \<Longrightarrow> listeners s p = Some cs \<Longrightarrow>
     \<exists>n s'. exec n beh (ForCallbacks p i ev) s = Some s' \<and> listeners s' = listeners s \<and>
            isProcessing s' \<and>
            calls (trace s') = calls (trace s) @ map (\<lambda>c. (p, c, ev)) (live (drop i cs))"
proof (induction k \<equiv> "length cs - i" arbitrary: i s)
  case 0
  then have "exec (Suc 0) beh (ForCallbacks p i ev) s = Some s"
    by (simp add: exec_ForCallbacks)
  moreover from 0 have "drop i cs = []" by simp
  ultimately show ?case using 0 by (metis append_Nil2 list.simps(8) live.simps(1))
next
  case (Suc k)
  then have i: "i < length cs" and k: "k = length cs - Suc i" by simp_all
  have d: "drop i cs = cs ! i # drop (Suc i) cs"
    using i by (simp add: Cons_nth_drop_Suc)
  show ?case
  proof (cases "cs ! i")
    case None
    from Suc.hyps(1) [OF k Suc.prems] obtain n s' where
      r: "exec n beh (ForCallbacks p (Suc i) ev) s = Some s'" "listeners s' = listeners s"
         "isProcessing s'"
         "calls (trace s') = calls (trace s) @ map (\<lambda>c. (p, c, ev)) (live (drop (Suc i) cs))"
      by blast
    have "exec (Suc n) beh (ForCallbacks p i ev) s = Some s'"
      using Suc.prems i None r(1) by (simp add: exec_ForCallbacks)
    with r d None show ?thesis by (metis live.simps(2))
  next
    case (Some c)
    let ?s0 = "s\<lparr>trace := trace s @ [Called p c ev]\<rparr>"
    let ?acts = "beh (trace s) (AwaitCallback p c ev)"
    have flag0: "isProcessing ?s0" using Suc.prems(1) by simp
    from quiet have q: "\<forall>a \<in> set ?acts. \<not> changes_listeners a" and nh: "Hang \<notin> set ?acts"
      by (auto simp: quiet_def)
    from await_total [OF flag0 nh, of beh] obtain s1 where
      c1: "exec (Suc (Suc (Suc (length ?acts)))) beh (Await ?acts) ?s0 = Some s1"
      by blast
    from exec_quiet [OF c1 flag0] q have l1: "listeners s1 = listeners s" by simp
    from exec_inside_batch [OF c1 flag0]
    have f1: "isProcessing s1" and t1: "calls (trace s1) = calls (trace s) @ [(p, c, ev)]"
      by simp_all
    from l1 Suc.prems(2) have ls1: "listeners s1 p = Some cs" by simp
    from Suc.hyps(1) [OF k f1 ls1] obtain n s' where
      r: "exec n beh (ForCallbacks p (Suc i) ev) s1 = Some s'" "listeners s' = listeners s1"
         "isProcessing s'"
         "calls (trace s') = calls (trace s1) @ map (\<lambda>c. (p, c, ev)) (live (drop (Suc i) cs))"
      by blast
    let ?m = "max n (Suc (Suc (Suc (length ?acts))))"
    have a: "exec ?m beh (Await ?acts) ?s0 = Some s1"
      by (rule exec_mono [OF c1]) simp
    have b: "exec ?m beh (ForCallbacks p (Suc i) ev) s1 = Some s'"
      by (rule exec_mono [OF r(1)]) simp
    have "exec (Suc ?m) beh (ForCallbacks p i ev) s = Some s'"
      using Suc.prems i Some a b by (simp add: exec_ForCallbacks)
    moreover have "calls (trace s') = calls (trace s) @ map (\<lambda>c. (p, c, ev)) (live (drop i cs))"
      using r(4) t1 d Some by simp
    ultimately show ?thesis using r(2,3) l1 by metis
  qed
qed

lemma forPatterns_quiet:
  assumes quiet: "\<forall>tr p c. \<forall>a \<in> set (beh tr (AwaitCallback p c ev)). quiet a"
  shows "isProcessing s \<Longrightarrow>
     \<exists>n s'. exec n beh (ForPatterns ps ev) s = Some s' \<and> listeners s' = listeners s \<and>
            isProcessing s' \<and>
            calls (trace s') =
              calls (trace s) @ concat (map (\<lambda>p. map (\<lambda>c. (p, c, ev)) (registered s p)) ps)"
proof (induction ps arbitrary: s)
  case Nil
  have "exec (Suc 0) beh (ForPatterns [] ev) s = Some s" by (simp add: exec_ForPatterns)
  with Nil show ?case by (metis append_Nil2 concat.simps(1) list.simps(8))
next
  case (Cons p ps)
  show ?case
  proof (cases "listeners s p")
    case None
    from Cons.IH [OF Cons.prems] obtain n s' where
      r: "exec n beh (ForPatterns ps ev) s = Some s'" "listeners s' = listeners s"
         "isProcessing s'"
         "calls (trace s') =
            calls (trace s) @ concat (map (\<lambda>p. map (\<lambda>c. (p, c, ev)) (registered s p)) ps)"
      by blast
    have "exec (Suc n) beh (ForPatterns (p # ps) ev) s = Some s'"
      using None r(1) by (simp add: exec_ForPatterns)
    moreover have "registered s p = []" using None by (simp add: registered_def)
    ultimately show ?thesis using r by auto
  next
    case (Some cs)
    from forCallbacks_quiet [where beh = beh and ev = ev and i = 0, OF quiet Cons.prems Some] obtain n1 s1 where
      c: "exec n1 beh (ForCallbacks p 0 ev) s = Some s1" "listeners s1 = listeners s"
         "isProcessing s1"
         "calls (trace s1) = calls (trace s) @ map (\<lambda>c. (p, c, ev)) (live cs)"
      by auto
    from Cons.IH [OF c(3)] obtain n2 s' where
      r: "exec n2 beh (ForPatterns ps ev) s1 = Some s'" "listeners s' = listeners s1"
         "isProcessing s'"
         "calls (trace s') =
            calls (trace s1) @ concat (map (\<lambda>p. map (\<lambda>c. (p, c, ev)) (registered s1 p)) ps)"
      by blast
    have same: "registered s1 = registered s"
      using c(2) by (simp add: registered_def fun_eq_iff)
    have a: "exec (max n1 n2) beh (ForCallbacks p 0 ev) s = Some s1"
      by (rule exec_mono [OF c(1)]) simp
    have b: "exec (max n1 n2) beh (ForPatterns ps ev) s1 = Some s'"
      by (rule exec_mono [OF r(1)]) simp
    have "exec (Suc (max n1 n2)) beh (ForPatterns (p # ps) ev) s = Some s'"
      using Some a b by (simp add: exec_ForPatterns)
    moreover have "calls (trace s') =
        calls (trace s) @ concat (map (\<lambda>p. map (\<lambda>c. (p, c, ev)) (registered s p)) (p # ps))"
      using r(4) c(4) same Some by (simp add: registered_def)
    ultimately show ?thesis using r(2,3) c(2) by metis
  qed
qed

lemma live_set_add: "distinct (live cs) \<Longrightarrow> distinct (live (set_add c cs))"
proof -
  have mem: "c \<in> set (live cs) \<longleftrightarrow> Some c \<in> set cs" for cs
    by (induction cs rule: live.induct) auto
  assume "distinct (live cs)"
  then show ?thesis by (simp add: set_add_def mem)
qed

lemma live_set_delete: "distinct (live cs) \<Longrightarrow> distinct (live (set_delete c cs))"
proof -
  have sub: "set (live (set_delete c cs)) \<subseteq> set (live cs)" for cs
    by (induction cs rule: live.induct) (auto simp add: set_delete_def)
  show "distinct (live cs) \<Longrightarrow> distinct (live (set_delete c cs))"
  proof (induction cs rule: live.induct)
    case 1
    then show ?case by (simp add: set_delete_def)
  next
    case (2 cs)
    then show ?case by (simp add: set_delete_def)
  next
    case (3 x cs)
    then have d: "distinct (live (set_delete c cs))" and n: "x \<notin> set (live cs)" by simp_all
    from n sub [of cs] have "x \<notin> set (live (set_delete c cs))" by blast
    with d show ?case
      using set_delete_def [of c "Some x # cs"] set_delete_def [of c cs] by simp
  qed
qed

lemma distinct_registered_on:
  "\<forall>p. distinct (registered s p) \<Longrightarrow> distinct (registered (on q c s) p)"
proof -
  assume a: "\<forall>p. distinct (registered s p)"
  have "distinct (live (case listeners s q of None \<Rightarrow> [] | Some cs \<Rightarrow> cs))"
    using a [rule_format, of q] by (simp add: registered_def split: option.splits)
  then have "distinct (live (set_add c (case listeners s q of None \<Rightarrow> [] | Some cs \<Rightarrow> cs)))"
    by (rule live_set_add)
  with a [rule_format, of p] show ?thesis
    by (simp add: registered_def on_def)
qed

lemma distinct_registered_off:
  "\<forall>p. distinct (registered s p) \<Longrightarrow> distinct (registered (off q c s) p)"
proof -
  assume a: "\<forall>p. distinct (registered s p)"
  show ?thesis
  proof (cases "listeners s q")
    case None
    with a show ?thesis by (simp add: off_def)
  next
    case (Some cs)
    from a have "distinct (registered s q)" by blast
    with Some have "distinct (live cs)" by (simp add: registered_def)
    then have "distinct (live (set_delete c cs))" by (rule live_set_delete)
    with a Some show ?thesis
      by (auto simp add: registered_def off_def split: option.splits)
  qed
qed


lemma exec_distinct_registered:
  "exec n beh c s = Some s' \<Longrightarrow> \<forall>p. distinct (registered s p) \<Longrightarrow>
   \<forall>p. distinct (registered s' p)"
proof (induction n arbitrary: c s s')
  case 0
  then show ?case by simp
next
  case (Suc n)
  note IH = Suc.IH
  note ok = Suc.prems(2)
  show ?case
  proof (cases c)
    case (HandleEvent service eventType data i t)
    from Suc.prems(1) have "exec n beh ProcessQueue
       (s\<lparr>eventQueue := eventQueue s @ [\<lparr>ev_id = i, ev_service = service, ev_type = eventType,
                                          ev_data = data, ev_timestamp = t\<rparr>],
          trace := trace s @ [Enqueued \<lparr>ev_id = i, ev_service = service, ev_type = eventType,
                                        ev_data = data, ev_timestamp = t\<rparr>]\<rparr>) = Some s'"
      by (simp add: HandleEvent exec_HandleEvent)
    from IH [OF this] ok show ?thesis by (simp add: registered_def)
  next
    case ProcessQueue
    from Suc.prems(1) have "exec (Suc n) beh ProcessQueue s = Some s'" by (simp add: ProcessQueue)
    then show ?thesis
    proof (cases rule: exec_ProcessQueue_cases)
      case idle
      with ok show ?thesis by simp
    next
      case (batch s1)
      from IH [OF batch(3)] ok have "\<forall>p. distinct (registered s1 p)"
        by (simp add: registered_def)
      with batch(4) show ?thesis by (simp add: registered_def)
    qed
  next
    case QueueLoop
    from Suc.prems(1) have "exec (Suc n) beh QueueLoop s = Some s'" by (simp add: QueueLoop)
    then show ?thesis
    proof (cases rule: exec_QueueLoop_cases)
      case drained
      with ok show ?thesis by simp
    next
      case (shift event rest s1 s2)
      from IH [OF shift(2)] ok have "\<forall>p. distinct (registered s1 p)"
        by (simp add: registered_def)
      with IH [OF shift(3)] have "\<forall>p. distinct (registered s2 p)" by simp
      with IH [OF shift(4)] show ?thesis by simp
    qed
  next
    case (DispatchEvent event)
    from Suc.prems(1) have "exec n beh (ForPatterns (patterns event) event)
        (s\<lparr>trace := trace s @ [Dispatched event]\<rparr>) = Some s'"
      by (simp add: DispatchEvent exec_DispatchEvent)
    from IH [OF this] ok show ?thesis by (simp add: registered_def)
  next
    case (ForPatterns ps event)
    from Suc.prems(1) have "exec (Suc n) beh (ForPatterns ps event) s = Some s'"
      by (simp add: ForPatterns)
    then show ?thesis
    proof (cases rule: exec_ForPatterns_cases)
      case nil
      with ok show ?thesis by simp
    next
      case (skip pattern rest)
      from IH [OF skip(3)] ok show ?thesis by simp
    next
      case (visit pattern rest callbacks s1)
      from IH [OF visit(3)] ok have "\<forall>p. distinct (registered s1 p)" by simp
      with IH [OF visit(4)] show ?thesis by simp
    qed
  next
    case (ForCallbacks pattern i event)
    from Suc.prems(1) have "exec (Suc n) beh (ForCallbacks pattern i event) s = Some s'"
      by (simp add: ForCallbacks)
    then show ?thesis
    proof (cases rule: exec_ForCallbacks_cases)
      case unset
      with ok show ?thesis by simp
    next
      case (finished callbacks)
      with ok show ?thesis by simp
    next
      case (vacant callbacks)
      from IH [OF vacant(4)] ok show ?thesis by simp
    next
      case (invoke callbacks callback s1)
      from IH [OF invoke(4)] ok have "\<forall>p. distinct (registered s1 p)"
        by (simp add: registered_def)
      with IH [OF invoke(5)] show ?thesis by simp
    qed
  next
    case (Await acts)
    from Suc.prems(1) have "exec (Suc n) beh (Await acts) s = Some s'"
      by (simp add: Await)
    then show ?thesis
    proof (cases rule: exec_Await_cases)
      case returned
      with ok show ?thesis by simp
    next
      case (registers eventPattern callback rest)
      from ok have "\<forall>p. distinct (registered (on eventPattern callback s) p)"
        by (simp add: distinct_registered_on)
      with IH [OF registers(2)] show ?thesis by simp
    next
      case (unregisters eventPattern callback rest)
      from ok have "\<forall>p. distinct (registered (off eventPattern callback s) p)"
        by (simp add: distinct_registered_off)
      with IH [OF unregisters(2)] show ?thesis by simp
    next
      case (raises service eventType data i t rest s1)
      from IH [OF raises(2)] ok have "\<forall>p. distinct (registered s1 p)" by simp
      with IH [OF raises(3)] show ?thesis by simp
    next
      case (throws rest)
      from IH [OF throws(2)] ok show ?thesis by simp
    qed
  qed
qed

lemma listener_run_distinct_registered:
  "listener_run n beh ops s = Some s' \<Longrightarrow> \<forall>p. distinct (registered s p) \<Longrightarrow>
   \<forall>p. distinct (registered s' p)"
proof (induction ops arbitrary: s)
  case Nil
  then show ?case by simp
next
  case (Cons op ops)
  show ?case
  proof (cases op)
    case (Subscribe q c)
    from Cons.prems(2) have "\<forall>p. distinct (registered (on q c s) p)"
      by (simp add: distinct_registered_on)
    with Cons.IH [of "on q c s"] Cons.prems(1) Subscribe show ?thesis by simp
  next
    case (Unsubscribe q c)
    from Cons.prems(2) have "\<forall>p. distinct (registered (off q c s) p)"
      by (simp add: distinct_registered_off)
    with Cons.IH [of "off q c s"] Cons.prems(1) Unsubscribe show ?thesis by simp
  next
    case (Notify service eventType data i t)
    with Cons.prems(1) obtain s1 where
      h: "exec n beh (HandleEvent service eventType data i t) s = Some s1"
      and r: "listener_run n beh ops s1 = Some s'"
      by (auto simp add: handleEvent_def split: option.splits)
    from exec_distinct_registered [OF h Cons.prems(2)] Cons.IH [OF r] show ?thesis by simp
  qed
qed




text \<open>
  With quiet pauses a dispatch returns, and its calls are the callbacks registered
  under the patterns, in order.
\<close>

lemma dispatchEvent_quiet:
  assumes quiet: "\<forall>tr p c. \<forall>a \<in> set (beh tr (AwaitCallback p c ev)). quiet a"
    and flag: "isProcessing s"
  shows "\<exists>n s'. exec n beh (DispatchEvent ev) s = Some s' \<and> listeners s' = listeners s \<and>
            isProcessing s' \<and>
            calls (trace s') =
              calls (trace s) @ concat (map (\<lambda>p. map (\<lambda>c. (p, c, ev)) (registered s p)) (patterns ev))"
proof -
  let ?s0 = "s\<lparr>trace := trace s @ [Dispatched ev]\<rparr>"
  have flag0: "isProcessing ?s0" using flag by simp
  from forPatterns_quiet [where beh = beh and ev = ev and ps = "patterns ev", OF quiet flag0]
  obtain n s' where
    r: "exec n beh (ForPatterns (patterns ev) ev) ?s0 = Some s'"
       "listeners s' = listeners ?s0" "isProcessing s'"
       "calls (trace s') = calls (trace ?s0)
          @ concat (map (\<lambda>p. map (\<lambda>c. (p, c, ev)) (registered ?s0 p)) (patterns ev))"
    by blast
  have same: "registered ?s0 = registered s" by (simp add: registered_def fun_eq_iff)
  have d: "exec (Suc n) beh (DispatchEvent ev) s = Some s'"
    using r(1) by (simp add: exec_DispatchEvent)
  from d r(2,3,4) same show ?thesis by (intro exI [of _ "Suc n"] exI [of _ s']) simp
qed









lemma count_list_distinct: "distinct xs \<Longrightarrow> count_list xs x = (if x \<in> set xs then 1 else 0)"
  by (induction xs) auto

lemma patterns_distinct: "ev_type ev \<noteq> ''*'' \<Longrightarrow> distinct (patterns ev)"
  by (cases "ev_service ev") (simp_all add: patterns_def)

text \<open>
  A callback whose promise never settles stops the dispatch for good: whatever the
  bound, the run does not return, and the callbacks after it are not called.
\<close>

lemma await_hangs: "exec n beh (Await (Hang # rest)) s = None"
  by (cases n) (simp_all add: exec_Await)

lemma forCallbacks_hangs:
  assumes "listeners s p = Some cs" "i < length cs" "cs ! i = Some c"
    and "beh (trace s) (AwaitCallback p c ev) = Hang # rest"
  shows "exec n beh (ForCallbacks p i ev) s = None"
  using assms by (cases n) (simp_all add: exec_ForCallbacks await_hangs)

lemma forPatterns_hangs:
  assumes "listeners s p = Some cs" "\<And>m. exec m beh (ForCallbacks p 0 ev) s = None"
  shows "exec n beh (ForPatterns (p # ps) ev) s = None"
  using assms by (cases n) (simp_all add: exec_ForPatterns)

lemma dispatchEvent_hangs:
  assumes "\<And>m. exec m beh (ForPatterns (patterns ev) ev) (s\<lparr>trace := trace s @ [Dispatched ev]\<rparr>) = None"
  shows "exec n beh (DispatchEvent ev) s = None"
  using assms by (cases n) (simp_all add: exec_DispatchEvent)

lemma queueLoop_hangs:
  assumes "eventQueue s = ev # rest"
    and "\<And>m. exec m beh (DispatchEvent ev) (s\<lparr>eventQueue := rest\<rparr>) = None"
  shows "exec n beh QueueLoop s = None"
  using assms by (cases n) (simp_all add: exec_QueueLoop)

lemma handleEvent_hangs:
  assumes "\<not> isProcessing s"
    and "\<And>m. exec m beh QueueLoop
            (s\<lparr>eventQueue := eventQueue s @
                  [\<lparr>ev_id = i, ev_service = service, ev_type = eventType, ev_data = data,
                    ev_timestamp = t\<rparr>],
                trace := trace s @
                  [Enqueued \<lparr>ev_id = i, ev_service = service, ev_type = eventType,
                             ev_data = data, ev_timestamp = t\<rparr>],
                isProcessing := True\<rparr>) = None"
  shows "handleEvent n beh service eventType data i t s = None"
proof (cases n)
  case 0
  then show ?thesis by (simp add: handleEvent_def)
next
  case (Suc k)
  show ?thesis
  proof (cases k)
    case 0
    with Suc show ?thesis by (simp add: handleEvent_def exec_HandleEvent)
  next
    case (Suc j)
    with \<open>n = Suc k\<close> assms show ?thesis
      by (simp add: handleEvent_def exec_HandleEvent exec_ProcessQueue)
  qed
qed

lemma stalled_never_returns:
  "listener_run n stalled
     [Subscribe ''auth:auth_signin'' 1, Subscribe ''auth:auth_signin'' 2,
      Notify ''auth'' ''auth_signin'' JNull ''evt_1'' ''t1'']
     IntegrationListener_new = None"
proof -
  let ?L = "[''auth:auth_signin'' \<mapsto> [Some 1, Some 2]] :: string \<Rightarrow> callback_set option"
  let ?s0 = "\<lparr>eventQueue = [], listeners = ?L, isProcessing = False, trace = []\<rparr>"
  let ?s1 = "\<lparr>eventQueue = [signin_event], listeners = ?L, isProcessing = True,
              trace = [Enqueued signin_event]\<rparr>"
  let ?s2 = "\<lparr>eventQueue = [], listeners = ?L, isProcessing = True,
              trace = [Enqueued signin_event]\<rparr>"
  let ?s3 = "\<lparr>eventQueue = [], listeners = ?L, isProcessing = True,
              trace = [Enqueued signin_event, Dispatched signin_event]\<rparr>"
  have s0: "on ''auth:auth_signin'' 2 (on ''auth:auth_signin'' 1 IntegrationListener_new) = ?s0"
    by (simp add: on_def set_add_def IntegrationListener_new_def)
  have l: "listeners ?s3 ''auth:auth_signin'' = Some [Some 1, Some 2]"
    by simp
  have c: "exec m stalled (ForCallbacks ''auth:auth_signin'' 0 signin_event) ?s3 = None" for m
    by (rule forCallbacks_hangs [OF l, where c = 1 and rest = "[]"]) (simp_all add: stalled_def)
  have "exec m stalled (ForPatterns (''auth:auth_signin'' # [''auth:*'', ''*'']) signin_event) ?s3 = None" for m
    by (rule forPatterns_hangs [OF l c])
  then have p: "exec m stalled (ForPatterns (patterns signin_event) signin_event) ?s3 = None" for m
    by (simp add: patterns_def signin_event_def)
  have d: "exec m stalled (DispatchEvent signin_event) ?s2 = None" for m
    by (rule dispatchEvent_hangs) (use p in simp)
  have q: "exec m stalled QueueLoop ?s1 = None" for m
    by (rule queueLoop_hangs [where ev = signin_event and rest = "[]"]) (use d in simp_all)
  have "handleEvent n stalled ''auth'' ''auth_signin'' JNull ''evt_1'' ''t1'' ?s0 = None"
    by (rule handleEvent_hangs) (use q in \<open>simp_all add: signin_event_def\<close>)
  with s0 show ?thesis by simp
qed

text \<open>
  C3, as the code has it. Take the dispatch of an event whose type is not \<open>*\<close> (the
  listener is processing its queue), and suppose that while the dispatch awaits a
  callback nothing is registered or unregistered, by the callback or by anyone else,
  and that every callback settles. Then \<open>_dispatchEvent\<close> returns, and the calls it
  makes are: for the pattern \<open>service:type\<close>, then for \<open>service:*\<close>, then for \<open>*\<close>,
  the callbacks registered under the pattern, in the order of their registration. The
  sets of callbacks are left as they were, and a callback is called for the event
  under a pattern once if it is registered under the pattern, and not at all if it is
  not (a set holds a callback once).
\<close>

theorem dispatch_order:
  assumes "isProcessing s"
    and "\<forall>tr p c. \<forall>a \<in> set (beh tr (AwaitCallback p c event)). quiet a"
    and "ev_type event \<noteq> ''*''"
    and "\<forall>p. distinct (registered s p)"
  shows "\<exists>n s'. (\<forall>m \<ge> n. dispatchEvent m beh event s = Some s') \<and>
           listeners s' = listeners s \<and>
           calls (trace s') = calls (trace s)
             @ map (\<lambda>c. (ev_service event @ '':'' @ ev_type event, c, event))
                 (registered s (ev_service event @ '':'' @ ev_type event))
             @ map (\<lambda>c. (ev_service event @ '':*'', c, event))
                 (registered s (ev_service event @ '':*''))
             @ map (\<lambda>c. (''*'', c, event)) (registered s ''*'') \<and>
           (\<forall>p c. count_list (drop (length (calls (trace s))) (calls (trace s'))) (p, c, event) =
                    (if p \<in> set (patterns event) \<and> c \<in> set (registered s p) then 1 else 0))"
proof -
  from dispatchEvent_quiet [OF assms(2,1)] obtain n s' where
    r: "exec n beh (DispatchEvent event) s = Some s'"
       "listeners s' = listeners s"
       "calls (trace s') = calls (trace s)
          @ concat (map (\<lambda>p. map (\<lambda>c. (p, c, event)) (registered s p)) (patterns event))"
    by blast
  let ?new = "concat (map (\<lambda>p. map (\<lambda>c. (p, c, event)) (registered s p)) (patterns event))"
  have run: "\<forall>m \<ge> n. dispatchEvent m beh event s = Some s'"
    using exec_mono [OF r(1)] by (simp add: dispatchEvent_def)
  have c: "calls (trace s') = calls (trace s)
             @ map (\<lambda>c. (ev_service event @ '':'' @ ev_type event, c, event))
                 (registered s (ev_service event @ '':'' @ ev_type event))
             @ map (\<lambda>c. (ev_service event @ '':*'', c, event))
                 (registered s (ev_service event @ '':*''))
             @ map (\<lambda>c. (''*'', c, event)) (registered s ''*'')"
    using r(3) by (simp add: patterns_def)
  from patterns_distinct [OF assms(3)] have dp: "distinct (patterns event)" .
  have d: "distinct ?new"
    using dp assms(4) by (auto simp add: patterns_def distinct_map inj_on_def)
  have mem: "(p, c, event) \<in> set ?new \<longleftrightarrow> p \<in> set (patterns event) \<and> c \<in> set (registered s p)"
    for p c by auto
  have once: "\<forall>p c. count_list (drop (length (calls (trace s))) (calls (trace s'))) (p, c, event) =
                    (if p \<in> set (patterns event) \<and> c \<in> set (registered s p) then 1 else 0)"
    unfolding r(3) using count_list_distinct [OF d] mem by simp
  from run r(2) c once show ?thesis by (intro exI [of _ n] exI [of _ s']) simp
qed

theorem dispatch_order_witness:
  "isProcessing signin_listener
   \<and> ev_type signin_event \<noteq> ''*''
   \<and> registered signin_listener ''auth:auth_signin'' = [1, 2]
   \<and> registered signin_listener ''*'' = [3]
   \<and> (\<exists>n s'. dispatchEvent n relay signin_event signin_listener = Some s'
        \<and> calls (trace s') =
            [(''auth:auth_signin'', 1, signin_event), (''auth:auth_signin'', 2, signin_event),
             (''*'', 3, signin_event)]
        \<and> count_list (calls (trace s')) (''*'', 3, signin_event) = 1
        \<and> count_list (calls (trace s')) (''*'', 1, signin_event) = 0)"
proof -
  have h1: "isProcessing signin_listener" by (simp add: signin_listener_def)
  have h2: "\<forall>tr p c. \<forall>a \<in> set (relay tr (AwaitCallback p c signin_event)). quiet a"
    by (simp add: relay_def quiet_def)
  have h3: "ev_type signin_event \<noteq> ''*''" by (simp add: signin_event_def)
  have h4: "\<forall>p. distinct (registered signin_listener p)"
    by (simp add: signin_listener_def registered_def on_def set_add_def IntegrationListener_new_def)
  have r: "registered signin_listener ''auth:auth_signin'' = [1, 2]"
     "registered signin_listener ''auth:*'' = []"
     "registered signin_listener ''*'' = [3]"
     "calls (trace signin_listener) = []"
    by (simp_all add: signin_listener_def registered_def on_def set_add_def IntegrationListener_new_def)
  have e: "ev_service signin_event = ''auth''" "ev_type signin_event = ''auth_signin''"
    by (simp_all add: signin_event_def)
  from dispatch_order [where beh = relay, OF h1 h2 h3 h4] obtain n s' where
    d: "\<forall>m \<ge> n. dispatchEvent m relay signin_event signin_listener = Some s'"
    and c: "calls (trace s') = calls (trace signin_listener)
       @ map (\<lambda>c. (ev_service signin_event @ '':'' @ ev_type signin_event, c, signin_event))
           (registered signin_listener (ev_service signin_event @ '':'' @ ev_type signin_event))
       @ map (\<lambda>c. (ev_service signin_event @ '':*'', c, signin_event))
           (registered signin_listener (ev_service signin_event @ '':*''))
       @ map (\<lambda>c. (''*'', c, signin_event)) (registered signin_listener ''*'')"
    and o: "\<forall>p c. count_list (drop (length (calls (trace signin_listener))) (calls (trace s')))
                    (p, c, signin_event) =
              (if p \<in> set (patterns signin_event) \<and> c \<in> set (registered signin_listener p)
               then 1 else 0)"
    by blast
  from c have c': "calls (trace s') =
            [(''auth:auth_signin'', 1, signin_event), (''auth:auth_signin'', 2, signin_event),
             (''*'', 3, signin_event)]"
    by (simp add: r e)
  from o [rule_format, of "''*''" 3] have o3: "count_list (calls (trace s')) (''*'', 3, signin_event) = 1"
    by (simp add: r patterns_def)
  from o [rule_format, of "''*''" 1] have o1: "count_list (calls (trace s')) (''*'', 1, signin_event) = 0"
    by (simp add: r patterns_def)
  from d have "dispatchEvent n relay signin_event signin_listener = Some s'" by simp
  with h1 h3 r(1,3) c' o3 o1 show ?thesis by blast
qed

text \<open>
  The claim C3 as it is written fails. The loop \<open>for (const callback of callbacks)\<close>
  iterates the live set and stops at every \<open>await\<close>, so a callback that is unregistered
  while the dispatch awaits an earlier one is not called: callbacks 1 and 2 are
  registered under \<open>auth:auth_signin\<close>, callback 2 is unregistered during the call of
  callback 1, and the sign-in event reaches callback 1 only. For an event whose type is
  \<open>*\<close> the first two patterns are the same, so a callback registered under \<open>auth:*\<close>
  is called twice. And when the promise of callback 1 never settles, the dispatch does
  not return (at no bound: lemma \<open>stalled_never_returns\<close>), and callback 2 is not called.
\<close>

theorem dispatch_order_counterexample:
  "registered (on ''auth:auth_signin'' 2 (on ''auth:auth_signin'' 1 IntegrationListener_new))
       ''auth:auth_signin'' = [1, 2]
   \<and> map_option (calls \<circ> trace)
       (listener_run 20 unsubscriber
          [Subscribe ''auth:auth_signin'' 1, Subscribe ''auth:auth_signin'' 2,
           Notify ''auth'' ''auth_signin'' JNull ''evt_1'' ''t1'']
          IntegrationListener_new)
     = Some [(''auth:auth_signin'', 1, signin_event)]
   \<and> registered (on ''auth:*'' 1 IntegrationListener_new) ''auth:*'' = [1]
   \<and> map_option (calls \<circ> trace)
       (listener_run 20 silent
          [Subscribe ''auth:*'' 1, Notify ''auth'' ''*'' JNull ''evt_1'' ''t1'']
          IntegrationListener_new)
     = Some [(''auth:*'', 1, star_event), (''auth:*'', 1, star_event)]
   \<and> map_option (calls \<circ> trace)
       (listener_run 20 silent
          [Subscribe ''auth:auth_signin'' 1, Subscribe ''auth:auth_signin'' 2,
           Notify ''auth'' ''auth_signin'' JNull ''evt_1'' ''t1'']
          IntegrationListener_new)
     = Some [(''auth:auth_signin'', 1, signin_event), (''auth:auth_signin'', 2, signin_event)]
   \<and> listener_run 20 stalled
          [Subscribe ''auth:auth_signin'' 1, Subscribe ''auth:auth_signin'' 2,
           Notify ''auth'' ''auth_signin'' JNull ''evt_1'' ''t1'']
          IntegrationListener_new
     = None"
  by (simp add: eval_nat_numeral handleEvent_def exec_Suc IntegrationListener_new_def on_def
      off_def set_add_def set_delete_def patterns_def unsubscriber_def silent_def stalled_def
      registered_def signin_event_def star_event_def)



section \<open>Properties of the machine adapter\<close>

lemma transitionTo_adapter:
  "fst (snd (transitionTo e newState metadata s world)) =
     s\<lparr>currentState := newState,
       stateHistory :=
         (if length (stateHistory s) + 1 > maxHistorySize s
          then tl (stateHistory s @ [obj_spread
                 [(''from'', currentState s), (''to'', newState),
                  (''timestamp'', JStr (toISOString e))] metadata])
          else stateHistory s @ [obj_spread
                 [(''from'', currentState s), (''to'', newState),
                  (''timestamp'', JStr (toISOString e))] metadata])\<rparr>"
  by (simp add: transitionTo_def Let_def split: option.splits prod.splits sum.splits)

lemma transitionTo_history_ok:
  "history_ok s \<Longrightarrow> history_ok (fst (snd (transitionTo e newState metadata s world)))"
  by (auto simp add: transitionTo_adapter history_ok_def)

lemma defineTransitions_history_ok:
  "history_ok s \<Longrightarrow> history_ok (defineTransitions s)"
  by (simp add: history_ok_def defineTransitions_def)

lemma initialize_history_ok:
  assumes "history_ok s" shows "history_ok (fst (snd (initialize e s world)))"
proof -
  have d: "history_ok (defineTransitions s)" using assms by (rule defineTransitions_history_ok)
  obtain r world1 where sub: "subscribeToServices (defineTransitions s) world = (r, world1)"
    by (cases "subscribeToServices (defineTransitions s) world")
  show ?thesis
  proof (cases r)
    case (Some msg)
    with sub d show ?thesis by (simp add: initialize_def Let_def)
  next
    case None
    obtain r2 s2 world2 where t: "transitionTo e (JStr ''initialized'') [] (defineTransitions s) world1 = (r2, s2, world2)"
      by (cases "transitionTo e (JStr ''initialized'') [] (defineTransitions s) world1")
    have "history_ok (fst (snd (transitionTo e (JStr ''initialized'') [] (defineTransitions s) world1)))"
      using d by (rule transitionTo_history_ok)
    with t have "history_ok s2" by simp
    with sub None t show ?thesis by (cases r2) (simp_all add: initialize_def Let_def)
  qed
qed

lemma transition_history_ok:
  assumes "history_ok s" shows "history_ok (fst (snd (transition e action context s world)))"
proof -
  let ?ctx = "if context = JUndefined then JObj [] else context"
  let ?key = "ToString e (currentState s) @ '':'' @ ToString e action"
  show ?thesis
  proof (cases "transitions s ?key")
    case None
    with assms show ?thesis by (simp add: transition_def Let_def)
  next
    case (Some handler)
    obtain r world1 where h: "handler_body handler (services s) ?ctx world = (r, world1)"
      by (cases "handler_body handler (services s) ?ctx world")
    show ?thesis
    proof (cases r)
      case (Inl msg)
      with Some h assms show ?thesis by (simp add: transition_def Let_def)
    next
      case (Inr result)
      show ?thesis
      proof (cases "truthy (obj_get result ''nextState'')")
        case False
        with Some h Inr assms show ?thesis by (simp add: transition_def Let_def)
      next
        case True
        obtain r2 s1 world2 where t: "transitionTo e (obj_get result ''nextState'')
              [(''action'', action), (''context'', ?ctx)] s world1 = (r2, s1, world2)"
          by (cases "transitionTo e (obj_get result ''nextState'')
              [(''action'', action), (''context'', ?ctx)] s world1")
        have "history_ok (fst (snd (transitionTo e (obj_get result ''nextState'')
              [(''action'', action), (''context'', ?ctx)] s world1)))"
          using assms by (rule transitionTo_history_ok)
        with t have "history_ok s1" by simp
        with Some h Inr True t show ?thesis
          by (cases r2) (simp_all add: transition_def Let_def)
      qed
    qed
  qed
qed

lemma integrationCallback_history_ok:
  assumes "history_ok s" shows "history_ok (fst (snd (integrationCallback e event s world)))"
  using assms
  by (simp add: integrationCallback_def transitionTo_history_ok split: sum.splits)

lemma adapter_step_history_ok:
  "history_ok (fst st) \<Longrightarrow> history_ok (fst (adapter_step c st))"
proof (cases st)
  case (Pair s world)
  assume "history_ok (fst st)"
  with Pair have ok: "history_ok s" by simp
  show ?thesis
  proof (cases c)
    case (Initialize e)
    with Pair ok show ?thesis by (simp add: initialize_history_ok)
  next
    case (Transition e action ctx)
    with Pair ok show ?thesis by (simp add: transition_history_ok)
  next
    case (IntegrationEvent e event)
    with Pair ok show ?thesis by (simp add: integrationCallback_history_ok)
  next
    case (SetTransition key handler)
    with Pair ok show ?thesis by (simp add: history_ok_def)
  qed
qed

lemma adapter_run_history_ok:
  "history_ok (fst st) \<Longrightarrow> history_ok (fst (adapter_run cs st))"
  by (induction cs arbitrary: st) (simp_all add: adapter_step_history_ok)

lemma new_history_ok: "history_ok (MachineAdapter_new sv)"
  by (simp add: history_ok_def MachineAdapter_new_def)

lemma initialize_without_integration:
  assumes "integration (services s) = None"
  shows "snd (initialize e s world) =
           (fst (snd (transitionTo e (JStr ''initialized'') [] (defineTransitions s) world)), world)"
    and "fst (initialize e s world) = [(''success'', JBool True), (''state'', JStr ''initialized'')]"
  using assms
  by (simp_all add: initialize_def subscribeToServices_def defineTransitions_def transitionTo_def
      Let_def)

lemma initialize_run_length:
  "integration (services (fst st)) = None \<Longrightarrow> history_ok (fst st) \<Longrightarrow>
   length (stateHistory (fst (adapter_run (replicate k (Initialize e)) st))) =
     min 100 (length (stateHistory (fst st)) + k)"
proof (induction k arbitrary: st)
  case 0
  then show ?case by (simp add: history_ok_def)
next
  case (Suc k)
  obtain s world where st: "st = (s, world)" by (cases st)
  let ?s1 = "fst (snd (transitionTo e (JStr ''initialized'') [] (defineTransitions s) world))"
  have step: "adapter_step (Initialize e) st = (?s1, world)"
    using Suc.prems(1) st by (simp add: initialize_without_integration)
  have ok: "history_ok ?s1"
    using Suc.prems(2) st by (simp add: transitionTo_history_ok defineTransitions_history_ok)
  have sv: "integration (services ?s1) = None"
    using Suc.prems(1) st by (simp add: transitionTo_adapter defineTransitions_def)
  have len: "length (stateHistory ?s1) = min 100 (Suc (length (stateHistory s)))"
    using Suc.prems(2) st
    by (auto simp add: transitionTo_adapter defineTransitions_def history_ok_def)
  from Suc.IH [of "(?s1, world)"] sv ok len step show ?case
    using st by simp
qed

text \<open>
  C4. When the transition table has no handler under the key \<open>state:action\<close> of the
  current state and the action, \<open>transition\<close> returns the failure
  \<open>No transition from state on action\<close> and changes nothing.
\<close>

theorem transition_fails_closed:
  assumes "transitions s (ToString e (currentState s) @ '':'' @ ToString e action) = None"
  shows "transition e action context s world =
           (failure (''No transition from '' @ ToString e (currentState s) @ '' on ''
                       @ ToString e action), s, world)"
  using assms by (simp add: transition_def Let_def)

theorem transition_fails_closed_witness:
  "transitions (fst (snd (initialize (test_env ''x'' ''t1'') (MachineAdapter_new no_services) ())))
       (ToString (test_env ''x'' ''t2'') (currentState (fst (snd (initialize (test_env ''x'' ''t1'') (MachineAdapter_new no_services) ()))))
          @ '':'' @ ToString (test_env ''x'' ''t2'') (JStr ''signout'')) = None
   \<and> fst (transition (test_env ''x'' ''t2'') (JStr ''signout'') JUndefined
       (fst (snd (initialize (test_env ''x'' ''t1'') (MachineAdapter_new no_services) ()))) ())
     = failure ''No transition from initialized on signout''"
proof -
  have cur: "currentState (fst (snd (initialize (test_env ''x'' ''t1'') (MachineAdapter_new no_services) ()))) = JStr ''initialized''"
    by (simp add: initialize_without_integration no_services_def MachineAdapter_new_def
        transitionTo_adapter)
  have none: "transitions (fst (snd (initialize (test_env ''x'' ''t1'') (MachineAdapter_new no_services) ())))
       (ToString (test_env ''x'' ''t2'') (currentState (fst (snd (initialize (test_env ''x'' ''t1'') (MachineAdapter_new no_services) ()))))
          @ '':'' @ ToString (test_env ''x'' ''t2'') (JStr ''signout'')) = None"
    by (simp add: cur)
       (simp add: initialize_without_integration no_services_def MachineAdapter_new_def
        transitionTo_adapter defineTransitions_def)
  from transition_fails_closed [OF none, of JUndefined "()"] none cur show ?thesis
    by simp
qed

text \<open>
  C5 does not hold of \<open>transition\<close>. An initialized adapter is asked to sign in, and
  its auth service answers with a failure result. The handler returns \<open>{error}\<close>, and
  \<open>transition\<close> spreads it into a result marked \<open>success: true\<close>: the result carries
  both \<open>success: true\<close> and the error.
\<close>

theorem transition_success_with_error:
  "fst (transition (test_env ''x'' ''t2'') (JStr ''signin'') (JObj [(''handle'', JStr ''user'')])
       (fst (snd (initialize (test_env ''x'' ''t1'')
       (MachineAdapter_new \<lparr>auth = Some failing_auth, token = None, wallet = None,
                            integration = None\<rparr>) ()))) ())
     = [(''success'', JBool True), (''state'', JStr ''initialized''),
        (''error'', JStr ''Invalid credentials'')]"
  by (simp add: transition_def initialize_def subscribeToServices_def defineTransitions_def
      transitionTo_def MachineAdapter_new_def failing_auth_def failure_def obj_get_def Let_def)

text \<open>
  C6. Whatever happens to an adapter after its construction, its history has at most 100
  entries; and when it has 100, \<open>_transitionTo\<close> drops the first (oldest) entry and
  adds the new one at the end.
\<close>

theorem history_bounded:
  "length (stateHistory (fst (adapter_run cs (MachineAdapter_new sv, world)))) \<le> 100
   \<and> (length (stateHistory (fst (adapter_run cs (MachineAdapter_new sv, world)))) = 100 \<longrightarrow>
        stateHistory (fst (snd (transitionTo e newState metadata
            (fst (adapter_run cs (MachineAdapter_new sv, world))) world'))) =
          tl (stateHistory (fst (adapter_run cs (MachineAdapter_new sv, world))))
          @ [obj_spread
               [(''from'', currentState (fst (adapter_run cs (MachineAdapter_new sv, world)))),
                (''to'', newState), (''timestamp'', JStr (toISOString e))] metadata])"
proof -
  have "history_ok (fst (adapter_run cs (MachineAdapter_new sv, world)))"
    by (rule adapter_run_history_ok) (simp add: new_history_ok)
  then show ?thesis
    by (cases "stateHistory (fst (adapter_run cs (MachineAdapter_new sv, world)))")
       (auto simp add: history_ok_def transitionTo_adapter)
qed

theorem history_bounded_witness:
  "length (stateHistory (fst (adapter_run (replicate 100 (Initialize (test_env ''x'' ''t1'')))
       (MachineAdapter_new no_services, ())))) = 100
   \<and> stateHistory (fst (snd (transitionTo (test_env ''x'' ''t2'') (JStr ''authenticated'')
         [(''trigger'', JStr ''integration_event'')]
         (fst (adapter_run (replicate 100 (Initialize (test_env ''x'' ''t1'')))
       (MachineAdapter_new no_services, ()))) ())))
     = tl (stateHistory (fst (adapter_run (replicate 100 (Initialize (test_env ''x'' ''t1'')))
       (MachineAdapter_new no_services, ()))))
       @ [obj_spread [(''from'', currentState (fst (adapter_run (replicate 100 (Initialize (test_env ''x'' ''t1'')))
       (MachineAdapter_new no_services, ())))),
            (''to'', JStr ''authenticated''),
            (''timestamp'', JStr (toISOString (test_env ''x'' ''t2'')))]
           [(''trigger'', JStr ''integration_event'')]]"
proof -
  have full: "length (stateHistory (fst (adapter_run (replicate 100 (Initialize (test_env ''x'' ''t1'')))
       (MachineAdapter_new no_services, ())))) = 100"
  proof -
    have "length (stateHistory (fst (adapter_run (replicate 100 (Initialize (test_env ''x'' ''t1'')))
             (MachineAdapter_new no_services, ())))) =
          min 100 (length (stateHistory (fst (MachineAdapter_new no_services, ()))) + 100)"
      by (rule initialize_run_length)
         (simp_all add: new_history_ok, simp add: MachineAdapter_new_def no_services_def)
    then show ?thesis by (simp add: MachineAdapter_new_def)
  qed
  from history_bounded [THEN conjunct2, rule_format, OF full] full show ?thesis
    by blast
qed

end
